theory Spec2Isabelle
  imports Complex_Main "HOL-Library.Word" "HOL-Library.Monad_Syntax"
begin

section \<open>The noise plugin of tailwindcss-noise (index.js)\<close>

text \<open>
  The development embeds \<^verbatim>\<open>src/node_modules/tailwindcss-noise/index.js\<close>.
  A JavaScript number is modelled by the real number it stands for (the values \<open>NaN\<close> and
  the infinities are not numbers of the model; the only place where the source meets
  \<open>NaN\<close>, the result of \<open>parseInt\<close>, is an \<open>option\<close>). The sum, the product and the
  quotient of two numbers are rounded to the nearest double, as IEEE 754 prescribes
  (\<open>binary64\<close> below). Strings are lists of 8-bit characters.
  What the JavaScript engine and the canvas library provide is a parameter of the model,
  the record \<open>engine\<close>: the values that \<open>Math.random()\<close> returns, given as a sequence
  together with the number of values already consumed; the value that line 11 computes
  from two draws with the engine's \<open>Math.log\<close>, \<open>Math.cos\<close> and \<open>Math.sqrt\<close>; the digits the
  engine prints for an integer beyond \<open>2^53\<close>; and the encoder \<open>canvas.toDataURL()\<close>, a
  function from the canvas content to the encoded resource.
\<close>

subsection \<open>The Gaussian sampler in exact arithmetic: \<^verbatim>\<open>randn_bm\<close> (lines 7-12)\<close>

type_synonym random_source = "nat \<Rightarrow> real"

text \<open>
  \<^verbatim>\<open>while (u === 0) u = Math.random();\<close> with the loop variable \<open>u\<close> and the number \<open>n\<close>
  of values drawn so far. The loop need not end: on a source that returns 0 for ever the
  result is \<open>None\<close>.
\<close>

partial_function (option) redraw_while_zero ::
  "random_source \<Rightarrow> real \<Rightarrow> nat \<Rightarrow> (real \<times> nat) option" where
  "redraw_while_zero rnd u n =
     (if u = 0 then redraw_while_zero rnd (rnd n) (Suc n) else Some (u, n))"

definition randn_bm :: "random_source \<Rightarrow> nat \<Rightarrow> (real \<times> nat) option" where
  "randn_bm rnd n =
     do { (u, n1) \<leftarrow> redraw_while_zero rnd 0 n;
          (v, n2) \<leftarrow> redraw_while_zero rnd 0 n1;
          Some (sqrt (- 2 * ln u) * cos (2 * pi * v), n2) }"


text \<open>A source that never stays at 0 for ever.\<close>

definition fair_source :: "random_source \<Rightarrow> bool" where
  "fair_source rnd \<longleftrightarrow> (\<forall>n. \<exists>m. n \<le> m \<and> rnd m \<noteq> 0)"

text \<open>A source whose every draw is one half.\<close>

definition half_source :: random_source where
  "half_source n = 1 / 2"


subsection \<open>Double arithmetic\<close>

text \<open>Rounding to the nearest integer, a tie going to the even neighbour.\<close>

definition round_half_even :: "real \<Rightarrow> int" where
  "round_half_even x = (if frac x = 1 / 2 \<and> even \<lfloor>x\<rfloor> then \<lfloor>x\<rfloor> else round x)"

definition pow2 :: "int \<Rightarrow> real" where
  "pow2 e = (if 0 \<le> e then 2 ^ nat e else 1 / 2 ^ nat (- e))"

text \<open>
  The double nearest to a positive number \<open>a\<close>: with \<open>2^e \<le> a < 2^(e+1)\<close> (and \<open>e\<close> not
  below \<open>-1022\<close>, where the subnormal numbers begin) the doubles are the multiples of
  \<open>2^(e-52)\<close>, and a tie goes to the even multiple.
\<close>

definition nearest64 :: "real \<Rightarrow> real" where
  "nearest64 a =
     (let e = max \<lfloor>log 2 a\<rfloor> (- 1022);
          ulp = pow2 (e - 52)
      in of_int (round_half_even (a / ulp)) * ulp)"

text \<open>
  The rounding of the exact result of an arithmetic operation. A result of \<open>2^1024\<close> and
  more in absolute value, which JavaScript turns into an infinity, keeps a finite value
  here; in the loop of lines 33-41 the steps that follow it (a sum with a double, the
  floor, the clamping) lead to the same byte from either.
\<close>

definition binary64 :: "real \<Rightarrow> real" where
  "binary64 x = (if x = 0 then 0 else if x < 0 then - nearest64 (- x) else nearest64 x)"

subsection \<open>The pixel buffer and the canvas\<close>

type_synonym byte = "8 word"

text \<open>
  Storing a number into a \<open>Uint8ClampedArray\<close> (the type of \<open>imageData.data\<close>) converts it
  with the ECMAScript operation ToUint8Clamp: clamp to \<open>[0, 255]\<close>, then round to the
  nearest integer, a tie going to the even neighbour.
\<close>

definition ToUint8Clamp :: "real \<Rightarrow> byte" where
  "ToUint8Clamp number =
     (let clamped = min (max number 0) 255;
          f = \<lfloor>clamped\<rfloor>
      in if clamped < of_int f + 1 / 2 then word_of_int f
         else if clamped > of_int f + 1 / 2 then word_of_int (f + 1)
         else if even f then word_of_int f
         else word_of_int (f + 1))"

record ImageData =
  width :: nat
  height :: nat
  data :: "byte list"

text \<open>\<^verbatim>\<open>createCanvas(w, h)\<close> and \<^verbatim>\<open>ctx.createImageData(w, h)\<close>: transparent black.\<close>

definition createCanvas :: "nat \<Rightarrow> nat \<Rightarrow> ImageData" where
  "createCanvas w h = \<lparr>width = w, height = h, data = replicate (w * h * 4) 0\<rparr>"

definition createImageData :: "nat \<Rightarrow> nat \<Rightarrow> ImageData" where
  "createImageData w h = \<lparr>width = w, height = h, data = replicate (w * h * 4) 0\<rparr>"

text \<open>\<^verbatim>\<open>ctx.fillStyle = 'black'; ctx.fillRect(0, 0, w, h)\<close> on the whole canvas.\<close>

definition fillRect_black :: "ImageData \<Rightarrow> ImageData" where
  "fillRect_black canvas =
     canvas\<lparr>data := concat (replicate (width canvas * height canvas) [0, 0, 0, 255])\<rparr>"

text \<open>\<^verbatim>\<open>ctx.putImageData(imageData, 0, 0)\<close> with an image of the canvas's own size.\<close>

definition putImageData :: "ImageData \<Rightarrow> ImageData \<Rightarrow> ImageData" where
  "putImageData canvas imageData = canvas\<lparr>data := data imageData\<rparr>"

text \<open>The four channels of pixel \<open>p\<close> (row-major) of an image.\<close>

definition red :: "ImageData \<Rightarrow> nat \<Rightarrow> byte" where
  "red img p = data img ! (4 * p)"

definition green :: "ImageData \<Rightarrow> nat \<Rightarrow> byte" where
  "green img p = data img ! (4 * p + 1)"

definition blue :: "ImageData \<Rightarrow> nat \<Rightarrow> byte" where
  "blue img p = data img ! (4 * p + 2)"

definition alpha :: "ImageData \<Rightarrow> nat \<Rightarrow> byte" where
  "alpha img p = data img ! (4 * p + 3)"

subsection \<open>The engine, and the sampler as the engine runs it\<close>

record 'u engine =
  Math_random :: random_source
  box_muller :: "real \<Rightarrow> real \<Rightarrow> real"
  big_toString :: "int \<Rightarrow> string"
  toDataURL :: "ImageData \<Rightarrow> 'u"

text \<open>
  Lines 7-12 as the engine runs them. The loops are those of \<open>randn_bm\<close>. The value of
  line 11 depends on the engine's \<open>Math.log\<close>, \<open>Math.cos\<close> and \<open>Math.sqrt\<close>, whose results
  ECMAScript leaves to the implementation: \<open>box_muller E u v\<close> is the double that line 11
  evaluates to for the draws \<open>u\<close> and \<open>v\<close>.
\<close>

definition randn_bm_engine :: "'u engine \<Rightarrow> nat \<Rightarrow> (real \<times> nat) option" where
  "randn_bm_engine E n =
     do { (u, n1) \<leftarrow> redraw_while_zero (Math_random E) 0 n;
          (v, n2) \<leftarrow> redraw_while_zero (Math_random E) 0 n1;
          Some (box_muller E u v, n2) }"

text \<open>Line 11 in exact arithmetic: with it, \<open>randn_bm_engine\<close> is \<open>randn_bm\<close>.\<close>

definition exact_box_muller :: "real \<Rightarrow> real \<Rightarrow> real" where
  "exact_box_muller u v = sqrt (- 2 * ln u) * cos (2 * pi * v)"

subsection \<open>The synthesizer: \<^verbatim>\<open>generateNoisePattern\<close> (lines 21-45)\<close>

text \<open>
  What the outside world holds: the number of values drawn from \<open>Math.random()\<close>, the
  arguments of every completed call of \<open>generateNoisePattern\<close> (call-count
  instrumentation), and the lines written by \<open>console.warn\<close>.
\<close>

record world =
  draws :: nat
  synth_log :: "(real \<times> real \<times> real) list"
  warnings :: "string list"

definition CANVAS_SIZE :: nat where
  "CANVAS_SIZE = 256"

text \<open>
  The loop \<^verbatim>\<open>for (let i = 0; i < data.length; i += 4)\<close> of lines 33-41. A write past the
  end of a typed array is ignored, as \<open>xs[i := v]\<close> is. The product and the sum of line 35
  and the quotient and the product of line 40 are each rounded to a double; the floor, the
  maximum and the minimum of doubles are exact.
\<close>

function fill_loop ::
  "'u engine \<Rightarrow> real \<Rightarrow> real \<Rightarrow> real \<Rightarrow> nat \<Rightarrow> byte list \<Rightarrow> nat
     \<Rightarrow> (byte list \<times> nat) option" where
  "fill_loop E mean stdDev opacity i dat n =
     (if i < length dat then
        do { (Z, n') \<leftarrow> randn_bm_engine E n;
             let pixelValue =
                   min 255 (max 0 (of_int \<lfloor>binary64 (binary64 (Z * stdDev) + mean)\<rfloor>));
                 dat = dat[i := ToUint8Clamp pixelValue];
                 dat = dat[i + 1 := ToUint8Clamp pixelValue];
                 dat = dat[i + 2 := ToUint8Clamp pixelValue];
                 dat = dat[i + 3 := ToUint8Clamp (binary64 (255 * binary64 (opacity / 100)))]
             in fill_loop E mean stdDev opacity (i + 4) dat n' }
      else Some (dat, n))"
  by pat_completeness auto
termination
  by (relation "measure (\<lambda>(E, mean, stdDev, opacity, i, dat, n). length dat - i)") auto

declare fill_loop.simps [simp del]

text \<open>
  The canvas that \<open>generateNoisePattern\<close> has drawn when it reaches line 44
  (lines 22-43), with the values of the parameters already fixed.
\<close>

definition draw_noise ::
  "'u engine \<Rightarrow> real \<Rightarrow> real \<Rightarrow> real \<Rightarrow> nat \<Rightarrow> (ImageData \<times> nat) option" where
  "draw_noise E mean stdDev opacity n =
     (let canvas = createCanvas CANVAS_SIZE CANVAS_SIZE;
          canvas = fillRect_black canvas;
          imageData = createImageData CANVAS_SIZE CANVAS_SIZE
      in do { (dat, n') \<leftarrow> fill_loop E mean stdDev opacity 0 (data imageData) n;
              Some (putImageData canvas (imageData\<lparr>data := dat\<rparr>), n') })"

text \<open>
  \<^verbatim>\<open>function generateNoisePattern(mean = 128, stdDev = 20, opacity = 20)\<close>: an argument
  that is missing (\<open>None\<close>) takes its default. The result is \<open>canvas.toDataURL()\<close>.
\<close>

definition generateNoisePattern ::
  "'u engine \<Rightarrow> real option \<Rightarrow> real option \<Rightarrow> real option \<Rightarrow> world
     \<Rightarrow> ('u \<times> world) option" where
  "generateNoisePattern E meanArg stdDevArg opacityArg w =
     (let mean = (case meanArg of None \<Rightarrow> 128 | Some x \<Rightarrow> x);
          stdDev = (case stdDevArg of None \<Rightarrow> 20 | Some x \<Rightarrow> x);
          opacity = (case opacityArg of None \<Rightarrow> 20 | Some x \<Rightarrow> x)
      in do { (canvas, n') \<leftarrow> draw_noise E mean stdDev opacity (draws w);
              Some (toDataURL E canvas,
                    w\<lparr>draws := n', synth_log := synth_log w @ [(mean, stdDev, opacity)]\<rparr>) })"

subsection \<open>The cache: \<^verbatim>\<open>NoisePatternCache\<close> (lines 50-69)\<close>

text \<open>
  \<open>Math.round\<close>: the nearest integer, a tie going up. The result is exact: it is a double
  whenever the argument is one.
\<close>

definition Math_round :: "real \<Rightarrow> int" where
  "Math_round x = \<lfloor>x + 1 / 2\<rfloor>"

text \<open>The decimal rendering of an integer, every digit of it.\<close>

fun digits_of :: "nat \<Rightarrow> string" where
  "digits_of n =
     (if n < 10 then [''0123456789'' ! n]
      else digits_of (n div 10) @ [''0123456789'' ! (n mod 10)])"

declare digits_of.simps [simp del]

definition decimal_string :: "int \<Rightarrow> string" where
  "decimal_string k = (if k < 0 then CHR ''-'' # digits_of (nat (- k)) else digits_of (nat k))"

text \<open>
  How a template literal renders an integral number: every digit of it up to \<open>2^53\<close> in
  absolute value. Beyond, JavaScript prints the shortest digits that identify the double,
  and the exponent notation from \<open>10^21\<close>: what it prints there is \<open>big\<close>, which the engine
  gives.
\<close>

definition Number_toString :: "(int \<Rightarrow> string) \<Rightarrow> int \<Rightarrow> string" where
  "Number_toString big k = (if \<bar>k\<bar> \<le> 2 ^ 53 then decimal_string k else big k)"

record 'u NoisePatternCache =
  patterns :: "string \<rightharpoonup> 'u"

definition NoisePatternCache_new :: "'u NoisePatternCache" where
  "NoisePatternCache_new = \<lparr>patterns = Map.empty\<rparr>"

definition getKey :: "'u engine \<Rightarrow> real \<Rightarrow> real \<Rightarrow> real \<Rightarrow> string" where
  "getKey E mean stdDev opacity =
     Number_toString (big_toString E) (Math_round mean) @ ''-''
       @ Number_toString (big_toString E) (Math_round stdDev) @ ''-''
       @ Number_toString (big_toString E) (Math_round opacity)"

text \<open>
  \<open>getPattern\<close> returns what \<open>this.patterns.get(key)\<close> returns, which is a pattern or
  \<open>undefined\<close> (\<open>None\<close>), together with the cache and the world as the call leaves them.
\<close>

definition getPattern ::
  "'u engine \<Rightarrow> 'u NoisePatternCache \<Rightarrow> real \<Rightarrow> real \<Rightarrow> real \<Rightarrow> world
     \<Rightarrow> ('u option \<times> 'u NoisePatternCache \<times> world) option" where
  "getPattern E this mean stdDev opacity w =
     (let key = getKey E mean stdDev opacity
      in do { (this, w) \<leftarrow>
                (if patterns this key = None then
                   do { (pattern, w) \<leftarrow>
                          generateNoisePattern E (Some mean) (Some stdDev) (Some opacity) w;
                        Some (this\<lparr>patterns := (patterns this)(key \<mapsto> pattern)\<rparr>, w) }
                 else Some (this, w));
              Some (patterns this key, this, w) })"

text \<open>A sequence of \<open>getPattern\<close> calls on one cache; the results in call order.\<close>

fun getPattern_calls ::
  "'u engine \<Rightarrow> 'u NoisePatternCache \<Rightarrow> (real \<times> real \<times> real) list \<Rightarrow> world
     \<Rightarrow> ('u option list \<times> 'u NoisePatternCache \<times> world) option" where
  "getPattern_calls E this [] w = Some ([], this, w)"
| "getPattern_calls E this ((mean, stdDev, opacity) # cs) w =
     do { (r, this, w) \<leftarrow> getPattern E this mean stdDev opacity w;
          (rs, this, w) \<leftarrow> getPattern_calls E this cs w;
          Some (r # rs, this, w) }"

subsection \<open>The plugin (lines 79-138)\<close>

definition defaultMean :: real where
  "defaultMean = 128"

definition defaultStdDev :: real where
  "defaultStdDev = 50"

definition defaultOpacity :: real where
  "defaultOpacity = 5"

text \<open>The object a utility returns: the target of \<open>url('...')\<close> and the repeat mode.\<close>

record 'u css =
  background_image :: "'u option"
  background_repeat :: string

record 'u plugin_state =
  patternCache :: "'u NoisePatternCache"
  defaultPattern :: "'u option"

text \<open>Lines 80-86: the cache is created and the default pattern is requested from it.\<close>

definition plugin_init :: "'u engine \<Rightarrow> world \<Rightarrow> ('u plugin_state \<times> world) option" where
  "plugin_init E w =
     do { (p, cache, w) \<leftarrow>
            getPattern E NoisePatternCache_new defaultMean defaultStdDev defaultOpacity w;
          Some (\<lparr>patternCache = cache, defaultPattern = p\<rparr>, w) }"

text \<open>The base utility \<open>.noise\<close> of lines 88-93.\<close>

definition base_noise :: "'u plugin_state \<Rightarrow> 'u css" where
  "base_noise st = \<lparr>background_image = defaultPattern st, background_repeat = ''repeat''\<rparr>"

datatype error = MalformedParameterString | NonNumericParameter | OpacityOutOfRange

fun message :: "error \<Rightarrow> string" where
  "message MalformedParameterString = ''Invalid format. Usage: noise-[mean,dev,opacity]''"
| "message NonNumericParameter =
     ''Mean, Standard Deviation, and Opacity must be valid numbers''"
| "message OpacityOutOfRange = ''Opacity must be between 0 and 100''"

text \<open>\<open>s.split(',')\<close>: the fields between the commas, at least one.\<close>

fun split_comma :: "string \<Rightarrow> string list" where
  "split_comma [] = [[]]"
| "split_comma (c # cs) =
     (if c = CHR '','' then [] # split_comma cs
      else (case split_comma cs of f # fs \<Rightarrow> (c # f) # fs | [] \<Rightarrow> [[c]]))"

text \<open>White space of \<open>trim\<close> and \<open>parseInt\<close>, among the 8-bit characters.\<close>

definition is_white :: "char \<Rightarrow> bool" where
  "is_white c \<longleftrightarrow> (of_char c :: nat) \<in> {9, 10, 11, 12, 13, 32, 160}"

definition trim :: "string \<Rightarrow> string" where
  "trim s = rev (dropWhile is_white (rev (dropWhile is_white s)))"

text \<open>The value of a character as a digit, up to radix 36.\<close>

definition digit_value :: "char \<Rightarrow> nat option" where
  "digit_value c =
     (let k = (of_char c :: nat)
      in if 48 \<le> k \<and> k \<le> 57 then Some (k - 48)
         else if 97 \<le> k \<and> k \<le> 122 then Some (k - 87)
         else if 65 \<le> k \<and> k \<le> 90 then Some (k - 55)
         else None)"

definition is_digit :: "nat \<Rightarrow> char \<Rightarrow> bool" where
  "is_digit R c = (case digit_value c of None \<Rightarrow> False | Some d \<Rightarrow> d < R)"

definition radix_value :: "nat \<Rightarrow> string \<Rightarrow> nat" where
  "radix_value R Z = foldl (\<lambda>acc c. acc * R + (case digit_value c of None \<Rightarrow> 0 | Some d \<Rightarrow> d)) 0 Z"

text \<open>
  \<open>parseInt(s)\<close> with no radix: leading white space, a sign, the prefix \<open>0x\<close> or \<open>0X\<close> that
  selects radix 16, then the longest run of digits; \<open>NaN\<close> (\<open>None\<close>) when that run is empty.
  The result is the double nearest to the integer that the digits denote. (From the
  twenty-first significant digit on ECMAScript lets an engine read a digit as 0; the
  model reads every digit.)
\<close>

definition parseInt_string :: "string \<Rightarrow> real option" where
  "parseInt_string inputString =
     (let S = dropWhile is_white inputString;
          sign = (if S \<noteq> [] \<and> hd S = CHR ''-'' then - 1 else 1 :: real);
          S = (if S \<noteq> [] \<and> (hd S = CHR ''+'' \<or> hd S = CHR ''-'') then tl S else S);
          hex = (take 2 S = ''0x'' \<or> take 2 S = ''0X'');
          R = (if hex then 16 else 10);
          S = (if hex then drop 2 S else S);
          Z = takeWhile (is_digit R) S
      in if Z = [] then None else Some (sign * binary64 (of_nat (radix_value R Z))))"

text \<open>An argument that is \<open>undefined\<close> (\<open>None\<close>) is first turned into the string "undefined".\<close>

definition parseInt :: "string option \<Rightarrow> real option" where
  "parseInt arg = parseInt_string (case arg of None \<Rightarrow> ''undefined'' | Some s \<Rightarrow> s)"

text \<open>\<open>xs[i]\<close> of an array: \<open>undefined\<close> (\<open>None\<close>) out of range.\<close>

definition element :: "'a list \<Rightarrow> nat \<Rightarrow> 'a option" where
  "element xs i = (if i < length xs then Some (xs ! i) else None)"

text \<open>The fields of line 103: \<^verbatim>\<open>value.split(',').map(v => v.trim())\<close>.\<close>

definition noise_fields :: "string \<Rightarrow> string list" where
  "noise_fields v = map trim (split_comma v)"

text \<open>
  Lines 99-114: the checks of the utility before it asks for a pattern. \<open>val\<close> is the
  argument \<open>value\<close> of the utility, \<open>None\<close> when it is \<open>undefined\<close>. Each \<open>throw\<close> is an
  \<open>Inl\<close>; \<open>Inr\<close> carries the three parsed numbers.
\<close>

definition parse_noise_value :: "string option \<Rightarrow> error + (real \<times> real \<times> real)" where
  "parse_noise_value val =
     (case val of
        None \<Rightarrow> Inl MalformedParameterString
      | Some v \<Rightarrow>
          if v = [] \<or> CHR '','' \<notin> set v then Inl MalformedParameterString
          else
            let fields = noise_fields v;
                meanStr = element fields 0;
                stdDevStr = element fields 1;
                opacityStr = element fields 2
            in (case (parseInt meanStr, parseInt stdDevStr, parseInt opacityStr) of
                  (Some mean, Some stdDev, Some opacity) \<Rightarrow>
                    if opacity < 0 \<or> opacity > 100 then Inl OpacityOutOfRange
                    else Inr (mean, stdDev, opacity)
                | _ \<Rightarrow> Inl NonNumericParameter))"

text \<open>
  Lines 97-128: the utility \<open>noise\<close>. An error is caught, a warning is written and the
  default pattern is used.
\<close>

definition noise_utility ::
  "'u engine \<Rightarrow> 'u plugin_state \<Rightarrow> string option \<Rightarrow> world
     \<Rightarrow> ('u css \<times> 'u plugin_state \<times> world) option" where
  "noise_utility E st val w =
     (case parse_noise_value val of
        Inr (mean, stdDev, opacity) \<Rightarrow>
          do { (pattern, cache, w) \<leftarrow>
                 getPattern E (patternCache st) mean stdDev opacity w;
               Some (\<lparr>background_image = pattern, background_repeat = ''repeat''\<rparr>,
                     st\<lparr>patternCache := cache\<rparr>, w) }
      | Inl err \<Rightarrow>
          Some (\<lparr>background_image = defaultPattern st, background_repeat = ''repeat''\<rparr>, st,
                w\<lparr>warnings := warnings w
                     @ [''Noise pattern error: '' @ message err @ ''. Using default pattern.'']\<rparr>))"

subsection \<open>Reference definitions for the properties\<close>

text \<open>
  The samples of \<open>k\<close> successive calls of the sampler, the first call starting after \<open>n\<close>
  draws: the sample of pixel \<open>p\<close> is the element \<open>p\<close> of the list.
\<close>

fun sample_seq :: "'u engine \<Rightarrow> nat \<Rightarrow> nat \<Rightarrow> (real list \<times> nat) option" where
  "sample_seq E 0 n = Some ([], n)"
| "sample_seq E (Suc k) n =
     do { (Z, n1) \<leftarrow> randn_bm_engine E n;
          (Zs, n2) \<leftarrow> sample_seq E k n1;
          Some (Z # Zs, n2) }"

text \<open>The four bytes that one turn of the loop of lines 33-41 writes for the sample \<open>Z\<close>.\<close>

definition quad :: "real \<Rightarrow> real \<Rightarrow> real \<Rightarrow> real \<Rightarrow> byte list" where
  "quad mean stdDev opacity Z =
     (let v = ToUint8Clamp
                (min 255 (max 0 (of_int \<lfloor>binary64 (binary64 (Z * stdDev) + mean)\<rfloor>)))
      in [v, v, v, ToUint8Clamp (binary64 (255 * binary64 (opacity / 100)))])"

text \<open>The luminance of line 35: the floor of the double, clamped to \<open>[0, 255]\<close>.\<close>

definition luminance :: "real \<Rightarrow> real \<Rightarrow> real \<Rightarrow> int" where
  "luminance mean stdDev Z = min 255 (max 0 \<lfloor>binary64 (binary64 (Z * stdDev) + mean)\<rfloor>)"

text \<open>The pattern a result of \<open>getPattern\<close> carries, if the call returned one.\<close>

definition returned :: "('u option \<times> 'c \<times> 'w) option \<Rightarrow> 'u option" where
  "returned r = (case r of None \<Rightarrow> None | Some (p, c, w) \<Rightarrow> p)"

text \<open>The patterns a sequence of calls has returned, none if it did not return.\<close>

definition returned_all :: "('u option list \<times> 'c \<times> 'w) option \<Rightarrow> 'u option list" where
  "returned_all r = (case r of None \<Rightarrow> [] | Some (ps, c, w) \<Rightarrow> ps)"

text \<open>The alpha byte of the first pixel, as a number.\<close>

definition first_alpha :: "ImageData \<Rightarrow> int" where
  "first_alpha img = uint (alpha img 0)"

text \<open>The red byte of the first pixel, as a number.\<close>

definition first_red :: "ImageData \<Rightarrow> int" where
  "first_red img = uint (red img 0)"

text \<open>The key under which the arguments of a synthesis are stored.\<close>

definition key_of :: "'u engine \<Rightarrow> real \<times> real \<times> real \<Rightarrow> string" where
  "key_of E c = (case c of (mean, stdDev, opacity) \<Rightarrow> getKey E mean stdDev opacity)"

text \<open>The characters that \<open>digits_of\<close> produces.\<close>

definition decimal :: "char \<Rightarrow> bool" where
  "decimal c \<longleftrightarrow> c \<in> set ''0123456789''"

text \<open>The world before anything has run.\<close>

definition world0 :: world where
  "world0 = \<lparr>draws = 0, synth_log = [], warnings = []\<rparr>"

text \<open>
  Two engines for closed instances. Both draw one half every time, print every digit and
  encode an image as itself. The first evaluates line 11 in exact arithmetic; the sampler
  of the second returns the double \<open>Z\<close>.
\<close>

definition half_engine :: "ImageData engine" where
  "half_engine =
     \<lparr>Math_random = half_source, box_muller = exact_box_muller,
      big_toString = decimal_string, toDataURL = id\<rparr>"

definition sample_engine :: "real \<Rightarrow> ImageData engine" where
  "sample_engine Z =
     \<lparr>Math_random = half_source, box_muller = (\<lambda>u v. Z),
      big_toString = decimal_string, toDataURL = id\<rparr>"

section \<open>Properties\<close>

subsection \<open>The sampler\<close>

lemma redraw_while_zero_nonzero:
  "u \<noteq> 0 \<Longrightarrow> redraw_while_zero rnd u n = Some (u, n)"
  by (subst redraw_while_zero.simps) simp

lemma redraw_while_zero_zero:
  "redraw_while_zero rnd 0 n = redraw_while_zero rnd (rnd n) (Suc n)"
  by (subst redraw_while_zero.simps) simp

lemma redraw_while_zero_skip:
  "n \<le> k \<Longrightarrow> \<forall>m. n \<le> m \<and> m < k \<longrightarrow> rnd m = 0 \<Longrightarrow> rnd k \<noteq> 0 \<Longrightarrow>
     redraw_while_zero rnd 0 n = Some (rnd k, Suc k)"
proof (induction "k - n" arbitrary: n)
  case 0
  then have "n = k" by simp
  with 0 show ?case
    by (simp add: redraw_while_zero_zero redraw_while_zero_nonzero)
next
  case (Suc d)
  then have z: "rnd n = 0" and lt: "n < k" by auto
  have "redraw_while_zero rnd 0 (Suc n) = Some (rnd k, Suc k)"
    using Suc lt by (intro Suc.hyps(1)) auto
  with z show ?case
    by (simp add: redraw_while_zero_zero)
qed

lemma redraw_while_zero_SomeD:
  assumes "redraw_while_zero rnd u n = Some y"
  shows "fst y \<noteq> 0 \<and> (u \<noteq> 0 \<longrightarrow> y = (u, n)) \<and>
         (u = 0 \<longrightarrow> (\<exists>k. n \<le> k \<and> (\<forall>m. n \<le> m \<and> m < k \<longrightarrow> rnd m = 0) \<and> y = (rnd k, Suc k)))"
  using assms
proof (induction rnd u n y rule: redraw_while_zero.raw_induct[rotated 1, consumes 1, case_names step])
  case (step redraw rnd u n y)
  show ?case
  proof (cases "u = 0")
    case False
    with step(2) show ?thesis by auto
  next
    case True
    with step(2) have r: "redraw rnd (rnd n) (Suc n) = Some y" by simp
    note ih = step(1)[OF r]
    show ?thesis
    proof (cases "rnd n = 0")
      case False
      with ih have "y = (rnd n, Suc n)" by simp
      with True False show ?thesis by (intro conjI impI exI[of _ n]) auto
    next
      case z: True
      with ih obtain k where k: "Suc n \<le> k" "\<forall>m. Suc n \<le> m \<and> m < k \<longrightarrow> rnd m = 0"
        "y = (rnd k, Suc k)" by auto
      have "\<forall>m. n \<le> m \<and> m < k \<longrightarrow> rnd m = 0"
        using k(2) z by (metis Suc_leI le_neq_implies_less)
      with k ih True show ?thesis by (intro conjI impI exI[of _ k]) auto
    qed
  qed
qed

lemma redraw_while_zero_fair:
  assumes "fair_source rnd"
  shows "\<exists>k. n \<le> k \<and> (\<forall>m. n \<le> m \<and> m < k \<longrightarrow> rnd m = 0) \<and> rnd k \<noteq> 0 \<and>
             redraw_while_zero rnd 0 n = Some (rnd k, Suc k)"
proof -
  define Q where "Q m \<longleftrightarrow> n \<le> m \<and> rnd m \<noteq> 0" for m
  from assms have "\<exists>m. Q m" by (auto simp: fair_source_def Q_def)
  then have L: "Q (LEAST m. Q m)" by (rule LeastI_ex)
  define k where "k = (LEAST m. Q m)"
  have nk: "n \<le> k" "rnd k \<noteq> 0" using L by (auto simp: Q_def k_def)
  have z: "\<forall>m. n \<le> m \<and> m < k \<longrightarrow> rnd m = 0"
  proof (intro allI impI)
    fix m assume m: "n \<le> m \<and> m < k"
    then have "\<not> Q m" unfolding k_def using not_less_Least by blast
    with m show "rnd m = 0" by (simp add: Q_def)
  qed
  from redraw_while_zero_skip[OF nk(1) z nk(2)] nk z show ?thesis by blast
qed





lemma randn_bm_engine_SomeD:
  assumes "randn_bm_engine E n = Some (Z, n')"
  shows "\<exists>u v. 0 \<noteq> u \<and> 0 \<noteq> v \<and> Z = box_muller E u v \<and> n < n'"
proof -
  from assms obtain u n1 v where
    u: "redraw_while_zero (Math_random E) 0 n = Some (u, n1)" and
    v: "redraw_while_zero (Math_random E) 0 n1 = Some (v, n')" and
    Z: "Z = box_muller E u v"
    by (auto simp: randn_bm_engine_def split: Option.bind_splits)
  from redraw_while_zero_SomeD[OF u] have "u \<noteq> 0" "n < n1" by auto
  moreover from redraw_while_zero_SomeD[OF v] have "v \<noteq> 0" "n1 < n'" by auto
  ultimately show ?thesis using Z by (intro exI[of _ u] exI[of _ v]) auto
qed

lemma randn_bm_engine_fair:
  assumes "fair_source (Math_random E)"
  shows "\<exists>Z n'. randn_bm_engine E n = Some (Z, n')"
proof -
  from redraw_while_zero_fair[OF assms, of n] obtain k where
    k: "redraw_while_zero (Math_random E) 0 n = Some (Math_random E k, Suc k)" by blast
  from redraw_while_zero_fair[OF assms, of "Suc k"] obtain l where
    l: "redraw_while_zero (Math_random E) 0 (Suc k) = Some (Math_random E l, Suc l)" by blast
  show ?thesis by (simp add: randn_bm_engine_def k l)
qed

lemma randn_bm_engine_exact:
  "box_muller E = exact_box_muller \<Longrightarrow> randn_bm_engine E n = randn_bm (Math_random E) n"
  by (simp add: randn_bm_engine_def randn_bm_def exact_box_muller_def)

subsection \<open>Rounding to a double\<close>

lemma pow2_powr: "pow2 e = 2 powr (of_int e)"
  by (simp add: pow2_def powr_real_of_int field_simps)

lemma pow2_pos: "0 < pow2 e"
  by (simp add: pow2_def)

lemma pow2_add: "pow2 (a + b) = pow2 a * pow2 b"
  by (simp add: pow2_powr powr_add)

lemma pow2_mono: "a \<le> b \<Longrightarrow> pow2 a \<le> pow2 b"
  by (simp add: pow2_powr)

lemma floor_log2_eq:
  assumes "pow2 e \<le> a" and "a < pow2 (e + 1)"
  shows "\<lfloor>log 2 a\<rfloor> = e"
proof -
  have pos: "0 < a" using assms(1) pow2_pos[of e] by linarith
  have "of_int e \<le> log 2 a"
    using assms(1) pos by (simp add: le_log_iff pow2_powr)
  moreover have "log 2 a < of_int e + 1"
    using assms(2) pos by (simp add: log_less_iff pow2_powr)
  ultimately show ?thesis by (simp add: floor_eq_iff)
qed

lemma floor_log2_bounds:
  assumes "0 < a"
  shows "pow2 \<lfloor>log 2 a\<rfloor> \<le> a" and "a < pow2 (\<lfloor>log 2 a\<rfloor> + 1)"
proof -
  have "of_int \<lfloor>log 2 a\<rfloor> \<le> log 2 a" by simp
  then show "pow2 \<lfloor>log 2 a\<rfloor> \<le> a"
    using assms le_log_iff[of 2 a "of_int \<lfloor>log 2 a\<rfloor>"] by (simp add: pow2_powr)
  have "log 2 a < of_int (\<lfloor>log 2 a\<rfloor> + 1)" by simp
  then show "a < pow2 (\<lfloor>log 2 a\<rfloor> + 1)"
    using assms log_less_iff[of 2 a "of_int (\<lfloor>log 2 a\<rfloor> + 1)"] by (simp add: pow2_powr)
qed

lemma binary64_0: "binary64 0 = 0"
  by (simp add: binary64_def)

lemma binary64_minus: "binary64 (- x) = - binary64 x"
  by (simp add: binary64_def)

lemma nearest64_binade:
  assumes "pow2 e \<le> a" and "a < pow2 (e + 1)" and "- 1022 \<le> e"
  shows "nearest64 a = of_int (round_half_even (a / pow2 (e - 52))) * pow2 (e - 52)"
proof -
  have "\<lfloor>log 2 a\<rfloor> = e" by (rule floor_log2_eq[OF assms(1,2)])
  then have "max \<lfloor>log 2 a\<rfloor> (- 1022) = e" using assms(3) by simp
  then show ?thesis unfolding nearest64_def Let_def by simp
qed

lemma round_half_even_ge: "of_int m \<le> y \<Longrightarrow> m \<le> round_half_even y"
proof -
  assume a: "of_int m \<le> y"
  then have "m \<le> \<lfloor>y\<rfloor>" by (simp add: le_floor_iff)
  moreover have "\<lfloor>y\<rfloor> \<le> round y" by (rule floor_le_round)
  ultimately show ?thesis by (simp add: round_half_even_def)
qed

lemma round_half_even_le: "y \<le> of_int m \<Longrightarrow> round_half_even y \<le> m"
proof -
  assume a: "y \<le> of_int m"
  then have "\<lceil>y\<rceil> \<le> m" by (simp add: ceiling_le_iff)
  moreover have "round y \<le> \<lceil>y\<rceil>" by (rule ceiling_ge_round)
  moreover have "\<lfloor>y\<rfloor> \<le> \<lceil>y\<rceil>" by (rule floor_le_ceiling)
  ultimately have "\<lfloor>y\<rfloor> \<le> m" "round y \<le> m" by linarith+
  then show ?thesis by (simp add: round_half_even_def)
qed

lemma nearest64_nonneg: "0 \<le> a \<Longrightarrow> 0 \<le> nearest64 a"
proof -
  assume a: "0 \<le> a"
  define u where "u = pow2 (max \<lfloor>log 2 a\<rfloor> (- 1022) - 52)"
  have u: "0 < u" unfolding u_def by (rule pow2_pos)
  have "(of_int 0 :: real) \<le> a / u" using a u by simp
  then have "0 \<le> round_half_even (a / u)" by (rule round_half_even_ge)
  then have "0 \<le> of_int (round_half_even (a / u)) * u" using u by simp
  then show ?thesis unfolding nearest64_def Let_def u_def .
qed

lemma binary64_nonneg: "0 \<le> x \<Longrightarrow> 0 \<le> binary64 x"
  using nearest64_nonneg[of x] by (simp add: binary64_def)

lemma binary64_nonpos: "x \<le> 0 \<Longrightarrow> binary64 x \<le> 0"
  using binary64_nonneg[of "- x"] by (simp add: binary64_minus)

lemma nearest64_le_int:
  assumes "0 < a" and "a \<le> of_int k" and "k \<le> 2 ^ 52"
  shows "nearest64 a \<le> of_int k"
proof -
  define e where "e = max \<lfloor>log 2 a\<rfloor> (- 1022)"
  have "(of_int k :: real) \<le> of_int (2 ^ 52)" using assms(3) by (simp only: of_int_le_iff)
  then have "a \<le> pow2 52" using assms(2) by (simp add: pow2_def)
  then have "log 2 a \<le> 52" using assms(1) by (simp add: log_le_iff pow2_powr)
  then have "\<lfloor>log 2 a\<rfloor> \<le> 52" by (simp add: floor_le_iff)
  then have e: "e \<le> 52" by (simp add: e_def)
  define n where "n = nat (52 - e)"
  have ulp: "pow2 (e - 52) = 1 / 2 ^ n"
    using e by (auto simp: pow2_def n_def)
  have "a / pow2 (e - 52) = a * 2 ^ n" by (simp add: ulp)
  also have "\<dots> \<le> of_int k * 2 ^ n" using assms(2) by simp
  also have "\<dots> = of_int (k * 2 ^ n)" by simp
  finally have "round_half_even (a / pow2 (e - 52)) \<le> k * 2 ^ n"
    by (rule round_half_even_le)
  then have "of_int (round_half_even (a / pow2 (e - 52))) \<le> (of_int (k * 2 ^ n) :: real)"
    by (simp only: of_int_le_iff)
  then have "of_int (round_half_even (a / pow2 (e - 52))) * pow2 (e - 52) \<le> of_int k"
    by (simp add: ulp field_simps)
  then show ?thesis unfolding nearest64_def Let_def e_def .
qed

lemma nearest64_ge_int:
  assumes "of_int k \<le> a" and "1 \<le> k" and "k \<le> 2 ^ 52"
  shows "of_int k \<le> nearest64 a"
proof -
  have "(1::real) \<le> of_int k" using assms(2) by simp
  then have a1: "1 \<le> a" using assms(1) by linarith
  then have pos: "0 < a" by simp
  define e where "e = \<lfloor>log 2 a\<rfloor>"
  have "0 \<le> log 2 a" using a1 by simp
  then have e0: "0 \<le> e" by (simp add: e_def)
  then have emax: "max \<lfloor>log 2 a\<rfloor> (- 1022) = e" by (simp add: e_def)
  have lo: "pow2 e \<le> a" using floor_log2_bounds(1)[OF pos] by (simp add: e_def)
  have "of_int k \<le> of_int (round_half_even (a / pow2 (e - 52))) * pow2 (e - 52)"
  proof (cases "e \<le> 52")
    case True
    define n where "n = nat (52 - e)"
    have ulp: "pow2 (e - 52) = 1 / 2 ^ n"
      using True by (auto simp: pow2_def n_def)
    have "(of_int (k * 2 ^ n) :: real) = of_int k * 2 ^ n" by simp
    also have "\<dots> \<le> a * 2 ^ n" using assms(1) by simp
    also have "\<dots> = a / pow2 (e - 52)" by (simp add: ulp)
    finally have "k * 2 ^ n \<le> round_half_even (a / pow2 (e - 52))"
      by (rule round_half_even_ge)
    then have "(of_int (k * 2 ^ n) :: real) \<le> of_int (round_half_even (a / pow2 (e - 52)))"
      by (simp only: of_int_le_iff)
    then show ?thesis by (simp add: ulp field_simps)
  next
    case False
    then have m: "0 \<le> e - 52" by simp
    define u where "u = pow2 (e - 52)"
    have u1: "1 \<le> u" using pow2_mono[OF m] by (simp add: pow2_def u_def)
    have "pow2 e = pow2 52 * u" using pow2_add[of 52 "e - 52"] by (simp add: u_def)
    then have "pow2 52 * u \<le> a" using lo by simp
    then have "pow2 52 \<le> a / u" using u1 by (simp add: field_simps)
    then have "(of_int (2 ^ 52) :: real) \<le> a / u" by (simp add: pow2_def)
    then have "2 ^ 52 \<le> round_half_even (a / u)" by (rule round_half_even_ge)
    with assms(3) have "k \<le> round_half_even (a / u)" by linarith
    then have r: "(of_int k :: real) \<le> of_int (round_half_even (a / u))"
      by (simp only: of_int_le_iff)
    have k0: "(0::real) \<le> of_int k" using assms(2) by simp
    have "(of_int k :: real) * 1 \<le> of_int (round_half_even (a / u)) * u"
      using r u1 k0 by (intro mult_mono) simp_all
    then show ?thesis by (simp add: u_def)
  qed
  then show ?thesis unfolding nearest64_def Let_def emax .
qed

lemma binary64_le_int:
  assumes "x \<le> of_int k" and "1 \<le> k" and "k \<le> 2 ^ 52"
  shows "binary64 x \<le> of_int k"
proof (cases "0 < x")
  case True
  with nearest64_le_int[OF True assms(1,3)] show ?thesis by (simp add: binary64_def)
next
  case False
  then have "binary64 x \<le> 0" by (intro binary64_nonpos) simp
  moreover have "(0::real) \<le> of_int k" using assms(2) by simp
  ultimately show ?thesis by linarith
qed

lemma binary64_ge_int:
  assumes "of_int k \<le> x" and "1 \<le> k" and "k \<le> 2 ^ 52"
  shows "of_int k \<le> binary64 x"
proof -
  have "(1::real) \<le> of_int k" using assms(2) by simp
  then have "0 < x" using assms(1) by linarith
  with nearest64_ge_int[OF assms] show ?thesis by (simp add: binary64_def)
qed

lemma binary64_of_int:
  assumes "\<bar>k\<bar> \<le> 2 ^ 52"
  shows "binary64 (of_int k) = of_int k"
proof -
  have pos: "binary64 (of_int j) = of_int j" if "1 \<le> j" "j \<le> 2 ^ 52" for j :: int
    using binary64_le_int[of "of_int j" j] binary64_ge_int[of j "of_int j"] that by simp
  consider "k = 0" | "1 \<le> k" | "1 \<le> - k" by linarith
  then show ?thesis
  proof cases
    case 1
    then show ?thesis by (simp add: binary64_0)
  next
    case 2
    with assms show ?thesis by (intro pos) simp_all
  next
    case 3
    with assms have "binary64 (of_int (- k)) = of_int (- k)" by (intro pos) simp_all
    then show ?thesis using binary64_minus[of "of_int k"] by simp
  qed
qed

lemma binary64_le_neg_int:
  assumes "x \<le> - of_int k" and "1 \<le> k" and "k \<le> 2 ^ 52"
  shows "binary64 x \<le> - of_int k"
  using binary64_ge_int[of k "- x"] assms by (simp add: binary64_minus)

lemma binary64_eval:
  assumes "pow2 e \<le> x" and "x < pow2 (e + 1)" and "- 1022 \<le> e"
    and "\<bar>x / pow2 (e - 52) - of_int m\<bar> < 1 / 2"
  shows "binary64 x = of_int m * pow2 (e - 52)"
proof -
  have pos: "0 < x" using assms(1) pow2_pos[of e] by linarith
  have r: "round (x / pow2 (e - 52)) = m" using assms(4) by (rule round_unique')
  have "frac (x / pow2 (e - 52)) \<noteq> 1 / 2"
  proof
    assume h: "frac (x / pow2 (e - 52)) = 1 / 2"
    define y where "y = x / pow2 (e - 52)"
    from h have "frac y = 1 / 2" by (simp only: y_def)
    then have y: "y = of_int \<lfloor>y\<rfloor> + 1 / 2" unfolding frac_def by linarith
    have "y + 1 / 2 = of_int (\<lfloor>y\<rfloor> + 1)" by (subst y) simp
    then have "round y = \<lfloor>y\<rfloor> + 1" unfolding round_def by (simp only: floor_of_int)
    with r have "\<lfloor>y\<rfloor> = m - 1" by (simp add: y_def)
    with y have "y = of_int m - 1 / 2" by simp
    moreover have "\<bar>y - of_int m\<bar> < 1 / 2" using assms(4) by (simp only: y_def)
    ultimately show False by simp
  qed
  then have "round_half_even (x / pow2 (e - 52)) = m" by (simp add: round_half_even_def r)
  with nearest64_binade[OF assms(1,2,3)] pos show ?thesis by (simp add: binary64_def)
qed

lemma binary64_tie:
  assumes "pow2 e \<le> x" and "x < pow2 (e + 1)" and "- 1022 \<le> e"
    and "x / pow2 (e - 52) = of_int m + 1 / 2" and "even m"
  shows "binary64 x = of_int m * pow2 (e - 52)"
proof -
  have pos: "0 < x" using assms(1) pow2_pos[of e] by linarith
  have f: "\<lfloor>x / pow2 (e - 52)\<rfloor> = m" unfolding assms(4) by (simp add: floor_eq_iff)
  then have "frac (x / pow2 (e - 52)) = 1 / 2" unfolding frac_def using assms(4) by linarith
  then have "round_half_even (x / pow2 (e - 52)) = m"
    using f assms(5) by (simp add: round_half_even_def)
  with nearest64_binade[OF assms(1,2,3)] pos show ?thesis by (simp add: binary64_def)
qed

lemma binary64_of_int53:
  assumes "\<bar>k\<bar> \<le> 2 ^ 53"
  shows "binary64 (of_int k) = of_int k"
proof -
  have pos: "binary64 (of_int j) = of_int j" if "2 ^ 52 < j" "j \<le> 2 ^ 53" for j :: int
  proof (cases "j = 2 ^ 53")
    case True
    have "binary64 (2 ^ 53) = of_int (2 ^ 52) * pow2 (53 - 52)"
      by (rule binary64_eval) (simp_all add: pow2_def)
    then show ?thesis unfolding True by (simp add: pow2_def)
  next
    case False
    with that have lt: "j < 2 ^ 53" by simp
    have a: "pow2 52 \<le> of_int j"
    proof -
      have "(of_int (2 ^ 52) :: real) \<le> of_int j" using that(1) by (simp only: of_int_le_iff)
      then show ?thesis by (simp add: pow2_def)
    qed
    have b: "of_int j < pow2 (52 + 1)"
    proof -
      have "(of_int j :: real) < of_int (2 ^ 53)" using lt by (simp only: of_int_less_iff)
      then show ?thesis by (simp add: pow2_def)
    qed
    have "binary64 (of_int j) = of_int j * pow2 (52 - 52)"
      using a b by (rule binary64_eval) (simp_all add: pow2_def)
    then show ?thesis by (simp add: pow2_def)
  qed
  consider "\<bar>k\<bar> \<le> 2 ^ 52" | "2 ^ 52 < k" | "2 ^ 52 < - k" by linarith
  then show ?thesis
  proof cases
    case 1
    then show ?thesis by (rule binary64_of_int)
  next
    case 2
    with assms show ?thesis by (intro pos) simp_all
  next
    case 3
    with assms have "binary64 (of_int (- k)) = of_int (- k)" by (intro pos) simp_all
    then show ?thesis using binary64_minus[of "of_int k"] by simp
  qed
qed

lemma binary64_of_nat: "n \<le> 2 ^ 53 \<Longrightarrow> binary64 (of_nat n) = of_nat n"
  using binary64_of_int53[of "int n"] by (simp add: of_nat_le_iff[of n "2 ^ 53", symmetric])

lemma binary64_numeral: "(numeral n :: nat) \<le> 2 ^ 53 \<Longrightarrow> binary64 (numeral n) = numeral n"
  using binary64_of_nat[of "numeral n"] by simp

lemma binary64_one: "binary64 1 = 1"
  using binary64_of_int[of 1] by simp

subsection \<open>The pixel loop\<close>

lemma sample_seq_length:
  "sample_seq E k n = Some (Zs, n') \<Longrightarrow> length Zs = k"
  by (induction k arbitrary: n Zs n') (auto split: Option.bind_splits)

lemma sample_seq_fair:
  assumes "fair_source (Math_random E)"
  shows "\<exists>Zs n'. sample_seq E k n = Some (Zs, n')"
proof (induction k arbitrary: n)
  case 0
  show ?case by simp
next
  case (Suc k)
  from randn_bm_engine_fair[OF assms, of n] obtain Z n1 where z: "randn_bm_engine E n = Some (Z, n1)"
    by blast
  from Suc[of n1] obtain Zs n2 where "sample_seq E k n1 = Some (Zs, n2)" by blast
  with z show ?case by simp
qed

lemma length_quad [simp]: "length (quad mean stdDev opacity Z) = 4"
  by (simp add: quad_def Let_def)

lemma length_concat_quads [simp]:
  "length (concat (map (quad mean stdDev opacity) Zs)) = 4 * length Zs"
  by (induction Zs) simp_all

lemma nth_concat_quads:
  "p < length Zs \<Longrightarrow> r < 4 \<Longrightarrow>
     concat (map (quad mean stdDev opacity) Zs) ! (4 * p + r) = quad mean stdDev opacity (Zs ! p) ! r"
proof (induction Zs arbitrary: p)
  case Nil
  then show ?case by simp
next
  case (Cons Z Zs)
  show ?case
  proof (cases p)
    case 0
    with Cons.prems show ?thesis by (simp add: nth_append)
  next
    case (Suc q)
    with Cons.prems have "q < length Zs" by simp
    from Cons.IH[OF this Cons.prems(2)] Suc show ?thesis
      by (simp add: nth_append)
  qed
qed

lemma take_four_updates:
  assumes "i + 4 \<le> length xs"
  shows "take (i + 4) (xs[i := a, i + 1 := b, i + 2 := c, i + 3 := d]) = take i xs @ [a, b, c, d]"
proof (rule nth_equalityI)
  show "length (take (i + 4) (xs[i := a, i + 1 := b, i + 2 := c, i + 3 := d]))
          = length (take i xs @ [a, b, c, d])"
    using assms by simp
next
  fix k assume "k < length (take (i + 4) (xs[i := a, i + 1 := b, i + 2 := c, i + 3 := d]))"
  then have k: "k < i + 4" by simp
  consider "k < i" | "k = i" | "k = i + 1" | "k = i + 2" | "k = i + 3" using k by linarith
  then show "take (i + 4) (xs[i := a, i + 1 := b, i + 2 := c, i + 3 := d]) ! k
               = (take i xs @ [a, b, c, d]) ! k"
    using assms by cases (simp_all add: nth_append)
qed

lemma fill_loop_quads:
  "length dat = 4 * N \<Longrightarrow> j \<le> N \<Longrightarrow> k = N - j \<Longrightarrow>
     fill_loop E mean stdDev opacity (4 * j) dat n =
       (case sample_seq E k n of
          None \<Rightarrow> None
        | Some (Zs, n') \<Rightarrow> Some (take (4 * j) dat @ concat (map (quad mean stdDev opacity) Zs), n'))"
proof (induction k arbitrary: j dat n)
  case 0
  then have "j = N" by simp
  with 0 show ?case by (subst fill_loop.simps) simp
next
  case (Suc k)
  then have lt: "4 * j < length dat" and le: "4 * j + 4 \<le> length dat" by auto
  show ?case
  proof (cases "randn_bm_engine E n")
    case None
    with lt show ?thesis by (subst fill_loop.simps) simp
  next
    case (Some a)
    obtain Z n1 where a: "a = (Z, n1)" by (cases a)
    define v where
      "v = ToUint8Clamp (min 255 (max 0 (of_int \<lfloor>binary64 (binary64 (Z * stdDev) + mean)\<rfloor>)))"
    define al where "al = ToUint8Clamp (binary64 (255 * binary64 (opacity / 100)))"
    define dat' where "dat' = dat[4 * j := v, 4 * j + 1 := v, 4 * j + 2 := v, 4 * j + 3 := al]"
    have len: "length dat' = 4 * N" using Suc.prems by (simp add: dat'_def)
    have ih: "fill_loop E mean stdDev opacity (4 * Suc j) dat' n1 =
       (case sample_seq E k n1 of
          None \<Rightarrow> None
        | Some (Zs, n') \<Rightarrow> Some (take (4 * Suc j) dat' @ concat (map (quad mean stdDev opacity) Zs), n'))"
      using Suc.prems by (intro Suc.IH len) auto
    have "4 * Suc j = 4 * j + 4" by simp
    then have tk: "take (4 * Suc j) dat' = take (4 * j) dat @ quad mean stdDev opacity Z"
      using take_four_updates[OF le, of v v v al]
      by (simp only: dat'_def quad_def Let_def v_def al_def)
    have step: "fill_loop E mean stdDev opacity (4 * j) dat n =
                  fill_loop E mean stdDev opacity (4 * Suc j) dat' n1"
      using lt Some a
      by (subst fill_loop.simps) (simp add: Let_def dat'_def v_def al_def add.commute)
    show ?thesis
      unfolding step ih using Some a tk
      by (simp split: option.splits)
  qed
qed

lemma draw_noise_quads:
  "draw_noise E mean stdDev opacity n =
     (case sample_seq E (CANVAS_SIZE * CANVAS_SIZE) n of
        None \<Rightarrow> None
      | Some (Zs, n') \<Rightarrow>
          Some (\<lparr>width = CANVAS_SIZE, height = CANVAS_SIZE,
                  data = concat (map (quad mean stdDev opacity) Zs)\<rparr>, n'))"
proof -
  have "fill_loop E mean stdDev opacity (4 * 0)
          (replicate (CANVAS_SIZE * CANVAS_SIZE * 4) 0) n =
       (case sample_seq E (CANVAS_SIZE * CANVAS_SIZE) n of
          None \<Rightarrow> None
        | Some (Zs, n') \<Rightarrow>
            Some (take (4 * 0) (replicate (CANVAS_SIZE * CANVAS_SIZE * 4) 0)
                    @ concat (map (quad mean stdDev opacity) Zs), n'))"
    by (rule fill_loop_quads) simp_all
  then show ?thesis
    by (simp add: draw_noise_def createCanvas_def createImageData_def fillRect_black_def
        putImageData_def Let_def split: option.splits)
qed

subsection \<open>Storing numbers as bytes\<close>

lemma uint_byte_of_int: "0 \<le> k \<Longrightarrow> k \<le> 255 \<Longrightarrow> uint (word_of_int k :: byte) = k"
  by (simp add: uint_word_of_int)

lemma ToUint8Clamp_of_int:
  assumes "0 \<le> k" "k \<le> 255"
  shows "ToUint8Clamp (of_int k) = word_of_int k"
proof -
  have "min (max (real_of_int k) 0) 255 = of_int k" using assms by simp
  then show ?thesis by (simp add: ToUint8Clamp_def Let_def)
qed

lemma luminance_range: "0 \<le> luminance mean stdDev Z \<and> luminance mean stdDev Z \<le> 255"
  by (simp add: luminance_def)

lemma pixelValue_luminance:
  "min 255 (max 0 (real_of_int \<lfloor>binary64 (binary64 (Z * stdDev) + mean)\<rfloor>))
     = of_int (luminance mean stdDev Z)"
  by (simp add: luminance_def min_def max_def)

lemma quad_luminance:
  "quad mean stdDev opacity Z =
     [word_of_int (luminance mean stdDev Z), word_of_int (luminance mean stdDev Z),
      word_of_int (luminance mean stdDev Z),
      ToUint8Clamp (binary64 (255 * binary64 (opacity / 100)))]"
  using luminance_range[of mean stdDev Z]
  by (simp add: quad_def Let_def pixelValue_luminance ToUint8Clamp_of_int)

lemma ToUint8Clamp_high: "255 \<le> x \<Longrightarrow> ToUint8Clamp x = 255"
  by (simp add: ToUint8Clamp_def Let_def)

lemma ToUint8Clamp_low: "x \<le> 0 \<Longrightarrow> ToUint8Clamp x = 0"
  by (simp add: ToUint8Clamp_def Let_def max_def)

lemma ToUint8Clamp_mid:
  assumes "0 \<le> x" "x \<le> 255"
  shows "uint (ToUint8Clamp x) = round_half_even x"
proof -
  have c: "min (max x 0) 255 = x" using assms by simp
  have f0: "0 \<le> \<lfloor>x\<rfloor>" using assms by simp
  have f1: "\<lfloor>x\<rfloor> \<le> 255" using assms by (simp add: floor_le_iff)
  show ?thesis
  proof (cases "x = 255")
    case True
    then show ?thesis by (simp add: ToUint8Clamp_def round_half_even_def Let_def uint_word_of_int)
  next
    case False
    with assms have "x < 255" by simp
    then have f2: "\<lfloor>x\<rfloor> < 255" by (simp add: floor_less_iff)
    consider "frac x < 1/2" | "frac x > 1/2" | "frac x = 1/2" by linarith
    then show ?thesis
    proof cases
      case 1
      then have lt: "x < of_int \<lfloor>x\<rfloor> + 1/2" by (simp add: frac_def)
      have "round x = \<lfloor>x\<rfloor>" using 1 by (simp add: round_altdef)
      with lt 1 f0 f1 show ?thesis
        unfolding ToUint8Clamp_def Let_def c
        by (simp add: round_half_even_def uint_byte_of_int)
    next
      case 2
      then have gt: "x > of_int \<lfloor>x\<rfloor> + 1/2" by (simp add: frac_def)
      have "round x = \<lfloor>x\<rfloor> + 1" using 2 by (simp add: round_altdef ceiling_altdef frac_def)
      moreover have "uint (word_of_int (\<lfloor>x\<rfloor> + 1) :: byte) = \<lfloor>x\<rfloor> + 1"
        using f0 f2 by (intro uint_byte_of_int) auto
      ultimately show ?thesis using gt 2 f0 f2
        unfolding ToUint8Clamp_def Let_def c
        by (simp add: round_half_even_def uint_byte_of_int)
    next
      case 3
      then have eq: "x = of_int \<lfloor>x\<rfloor> + 1/2" by (simp add: frac_def)
      then have n1: "\<not> x < of_int \<lfloor>x\<rfloor> + 1/2" "\<not> x > of_int \<lfloor>x\<rfloor> + 1/2" by simp_all
      have r: "round x = \<lfloor>x\<rfloor> + 1" using 3 by (simp add: round_altdef ceiling_altdef frac_def)
      have "uint (word_of_int (\<lfloor>x\<rfloor> + 1) :: byte) = \<lfloor>x\<rfloor> + 1"
        using f0 f2 by (intro uint_byte_of_int) auto
      then show ?thesis
        using n1 3 f0 f2 r
        unfolding ToUint8Clamp_def Let_def c
        by (simp add: round_half_even_def uint_byte_of_int)
    qed
  qed
qed

lemma round_half_even_nearest: "\<bar>of_int (round_half_even x) - x\<bar> \<le> 1 / 2"
proof (cases "frac x = 1 / 2 \<and> even \<lfloor>x\<rfloor>")
  case True
  then show ?thesis by (simp add: round_half_even_def frac_def)
next
  case False
  then have "round_half_even x = round x" by (auto simp: round_half_even_def)
  then show ?thesis using of_int_round_abs_le[of x] by simp
qed

lemma round_half_even_round:
  "round_half_even x = round x \<or> (frac x = 1 / 2 \<and> even \<lfloor>x\<rfloor> \<and> round_half_even x = round x - 1)"
  by (auto simp: round_half_even_def round_altdef ceiling_altdef frac_def)

lemma alpha_double_range:
  assumes "0 \<le> opacity" and "opacity \<le> 100"
  shows "0 \<le> binary64 (255 * binary64 (opacity / 100))"
    and "binary64 (255 * binary64 (opacity / 100)) \<le> 255"
proof -
  have q0: "0 \<le> binary64 (opacity / 100)" using assms(1) by (intro binary64_nonneg) simp
  have "opacity / 100 \<le> of_int 1" using assms(2) by simp
  then have "binary64 (opacity / 100) \<le> of_int 1" by (rule binary64_le_int) simp_all
  then have q1: "255 * binary64 (opacity / 100) \<le> of_int 255" by simp
  show "0 \<le> binary64 (255 * binary64 (opacity / 100))"
    using q0 by (intro binary64_nonneg) simp
  have "binary64 (255 * binary64 (opacity / 100)) \<le> of_int 255"
    using q1 by (rule binary64_le_int) simp_all
  then show "binary64 (255 * binary64 (opacity / 100)) \<le> 255" by simp
qed

lemma alpha_double_high:
  assumes "100 < opacity"
  shows "255 \<le> binary64 (255 * binary64 (opacity / 100))"
proof -
  have "of_int 1 \<le> opacity / 100" using assms by simp
  then have "of_int 1 \<le> binary64 (opacity / 100)" by (rule binary64_ge_int) simp_all
  then have "of_int 255 \<le> 255 * binary64 (opacity / 100)" by simp
  then have "of_int 255 \<le> binary64 (255 * binary64 (opacity / 100))"
    by (rule binary64_ge_int) simp_all
  then show ?thesis by simp
qed

lemma alpha_double_low:
  assumes "opacity < 0"
  shows "binary64 (255 * binary64 (opacity / 100)) \<le> 0"
proof -
  have "binary64 (opacity / 100) \<le> 0" using assms by (intro binary64_nonpos) simp
  then show ?thesis by (intro binary64_nonpos) simp
qed

lemma luminance_saturated:
  shows "luminance 300 0 Z = 255" and "luminance (- 50) 0 Z = 0"
proof -
  have a: "binary64 (of_int 300) = of_int 300" by (rule binary64_of_int) simp
  have b: "binary64 (of_int 50) = of_int 50" by (rule binary64_of_int) simp
  show "luminance 300 0 Z = 255"
    using a by (simp add: luminance_def binary64_0)
  have "binary64 (- 50) = - 50" using b binary64_minus[of 50] by simp
  then show "luminance (- 50) 0 Z = 0"
    by (simp add: luminance_def binary64_0)
qed

subsection \<open>The drawn canvas and the cache\<close>

lemma draw_noise_SomeD:
  assumes "draw_noise E mean stdDev opacity n = Some (img, n')"
  shows "\<exists>Zs. sample_seq E (CANVAS_SIZE * CANVAS_SIZE) n = Some (Zs, n') \<and>
           length Zs = CANVAS_SIZE * CANVAS_SIZE \<and>
           img = \<lparr>width = CANVAS_SIZE, height = CANVAS_SIZE,
                   data = concat (map (quad mean stdDev opacity) Zs)\<rparr>"
proof -
  from assms obtain Zs where
    Zs: "sample_seq E (CANVAS_SIZE * CANVAS_SIZE) n = Some (Zs, n')"
      "img = \<lparr>width = CANVAS_SIZE, height = CANVAS_SIZE,
               data = concat (map (quad mean stdDev opacity) Zs)\<rparr>"
    by (auto simp: draw_noise_quads split: option.splits)
  with sample_seq_length[OF Zs(1)] show ?thesis by blast
qed

lemma draw_noise_fair:
  assumes "fair_source (Math_random E)"
  shows "\<exists>img n'. draw_noise E mean stdDev opacity n = Some (img, n')"
proof -
  from sample_seq_fair[OF assms, of "CANVAS_SIZE * CANVAS_SIZE" n] obtain Zs n'
    where "sample_seq E (CANVAS_SIZE * CANVAS_SIZE) n = Some (Zs, n')" by blast
  then show ?thesis by (simp add: draw_noise_quads)
qed

lemma quads_channels:
  assumes "p < length Zs"
  shows "red \<lparr>width = a, height = b, data = concat (map (quad mean stdDev opacity) Zs)\<rparr> p
           = word_of_int (luminance mean stdDev (Zs ! p))"
    and "green \<lparr>width = a, height = b, data = concat (map (quad mean stdDev opacity) Zs)\<rparr> p
           = word_of_int (luminance mean stdDev (Zs ! p))"
    and "blue \<lparr>width = a, height = b, data = concat (map (quad mean stdDev opacity) Zs)\<rparr> p
           = word_of_int (luminance mean stdDev (Zs ! p))"
    and "alpha \<lparr>width = a, height = b, data = concat (map (quad mean stdDev opacity) Zs)\<rparr> p
           = ToUint8Clamp (binary64 (255 * binary64 (opacity / 100)))"
  using nth_concat_quads[OF assms, of 0 mean stdDev opacity]
    nth_concat_quads[OF assms, of 1 mean stdDev opacity]
    nth_concat_quads[OF assms, of 2 mean stdDev opacity]
    nth_concat_quads[OF assms, of 3 mean stdDev opacity]
  by (simp_all add: red_def green_def blue_def alpha_def quad_luminance)

lemma draw_noise_image:
  assumes "draw_noise E mean stdDev opacity n = Some (img, n')"
  shows "width img = 256" and "height img = 256" and "length (data img) = 256 * 256 * 4"
    and "p < 256 * 256 \<Longrightarrow> alpha img p = ToUint8Clamp (binary64 (255 * binary64 (opacity / 100)))"
    and "p < 256 * 256 \<Longrightarrow> green img p = red img p"
    and "p < 256 * 256 \<Longrightarrow> blue img p = red img p"
proof -
  from draw_noise_SomeD[OF assms] obtain Zs where
    Zs: "length Zs = CANVAS_SIZE * CANVAS_SIZE"
      "img = \<lparr>width = CANVAS_SIZE, height = CANVAS_SIZE,
               data = concat (map (quad mean stdDev opacity) Zs)\<rparr>"
    by blast
  show "width img = 256" "height img = 256" "length (data img) = 256 * 256 * 4"
    using Zs by (simp_all add: CANVAS_SIZE_def)
  {
    assume "p < 256 * 256"
    then have p: "p < length Zs" using Zs(1) by (simp add: CANVAS_SIZE_def)
    show "alpha img p = ToUint8Clamp (binary64 (255 * binary64 (opacity / 100)))"
      unfolding Zs(2) by (rule quads_channels(4)[OF p])
    show "green img p = red img p"
      unfolding Zs(2) by (simp only: quads_channels(1,2)[OF p])
    show "blue img p = red img p"
      unfolding Zs(2) by (simp only: quads_channels(1,3)[OF p])
  }
qed

lemma draw_noise_red:
  assumes "draw_noise E mean stdDev opacity n = Some (img, n')"
    and "sample_seq E (256 * 256) n = Some (Zs, n'')" and "p < 256 * 256"
  shows "red img p = word_of_int (luminance mean stdDev (Zs ! p))"
proof -
  from draw_noise_SomeD[OF assms(1)] obtain Zs' where
    Zs: "sample_seq E (CANVAS_SIZE * CANVAS_SIZE) n = Some (Zs', n')"
      "length Zs' = CANVAS_SIZE * CANVAS_SIZE"
      "img = \<lparr>width = CANVAS_SIZE, height = CANVAS_SIZE,
               data = concat (map (quad mean stdDev opacity) Zs')\<rparr>"
    by blast
  have "Zs' = Zs" using Zs(1) assms(2) by (simp add: CANVAS_SIZE_def)
  moreover have "p < length Zs'" using Zs(2) assms(3) by (simp add: CANVAS_SIZE_def)
  ultimately show ?thesis unfolding Zs(3) by (simp only: quads_channels(1))
qed

lemma generateNoisePattern_draw:
  "generateNoisePattern E (Some mean) (Some stdDev) (Some opacity) w =
     (case draw_noise E mean stdDev opacity (draws w) of
        None \<Rightarrow> None
      | Some (img, n') \<Rightarrow>
          Some (toDataURL E img,
                w\<lparr>draws := n', synth_log := synth_log w @ [(mean, stdDev, opacity)]\<rparr>))"
  by (simp add: generateNoisePattern_def split: option.splits)

lemma getPattern_hit:
  "patterns this (getKey E mean stdDev opacity) = Some x \<Longrightarrow>
     getPattern E this mean stdDev opacity w = Some (Some x, this, w)"
  by (simp add: getPattern_def)

lemma getPattern_miss:
  "patterns this (getKey E mean stdDev opacity) = None \<Longrightarrow>
     getPattern E this mean stdDev opacity w =
       (case draw_noise E mean stdDev opacity (draws w) of
          None \<Rightarrow> None
        | Some (img, n') \<Rightarrow>
            Some (Some (toDataURL E img),
                  this\<lparr>patterns := (patterns this)(getKey E mean stdDev opacity \<mapsto> toDataURL E img)\<rparr>,
                  w\<lparr>draws := n', synth_log := synth_log w @ [(mean, stdDev, opacity)]\<rparr>))"
  by (simp add: getPattern_def generateNoisePattern_draw Let_def split: option.splits)

subsection \<open>The synthesizer\<close>

lemma fair_half_source: "fair_source half_source"
  unfolding fair_source_def half_source_def by auto

lemma fair_half_engine: "fair_source (Math_random half_engine)"
  by (simp add: half_engine_def fair_half_source)

lemma fair_sample_engine: "fair_source (Math_random (sample_engine Z))"
  by (simp add: sample_engine_def fair_half_source)

lemma toDataURL_half_engine [simp]: "toDataURL half_engine img = img"
  by (simp add: half_engine_def)

lemma toDataURL_sample_engine [simp]: "toDataURL (sample_engine Z) img = img"
  by (simp add: sample_engine_def)

lemma randn_bm_sample_engine: "randn_bm_engine (sample_engine Z) n = Some (Z, Suc (Suc n))"
proof -
  have "redraw_while_zero half_source 0 k = Some (1 / 2, Suc k)" for k
    by (simp add: redraw_while_zero_zero redraw_while_zero_nonzero half_source_def)
  then show ?thesis by (simp add: randn_bm_engine_def sample_engine_def)
qed

lemma sample_seq_sample_engine:
  "sample_seq (sample_engine Z) k n = Some (replicate k Z, n + 2 * k)"
  by (induction k arbitrary: n) (simp_all add: randn_bm_sample_engine)

text \<open>
  Claim C2, as amended. A call of \<open>generateNoisePattern\<close> returns on every source that
  does not stay at 0 for ever, and what it returns is the encoding of an image in which,
  for every pixel \<open>p\<close> and the sample \<open>Z\<close> that the sampler returned for that pixel, the red
  byte is the floor of the double \<open>Z * stdDev + mean\<close> (the product and the sum each rounded
  to a double) clamped to \<open>[0, 255]\<close>, and the green and blue bytes equal it. With
  \<open>stdDev = 0\<close> every pixel is 255 for \<open>mean = 300\<close> and 0 for \<open>mean = -50\<close>.
\<close>

theorem generateNoisePattern_luminance:
  "(fair_source (Math_random E) \<longrightarrow>
      (\<exists>u w'. generateNoisePattern E (Some mean) (Some stdDev) (Some opacity) w
                 = Some (u, w'))) \<and>
   (\<forall>u w'. generateNoisePattern E (Some mean) (Some stdDev) (Some opacity) w
              = Some (u, w') \<longrightarrow>
      (\<exists>Zs img. sample_seq E (256 * 256) (draws w) = Some (Zs, draws w') \<and>
         draw_noise E mean stdDev opacity (draws w) = Some (img, draws w') \<and>
         u = toDataURL E img \<and>
         (\<forall>p. p < 256 * 256 \<longrightarrow>
            uint (red img p) = min 255 (max 0 \<lfloor>binary64 (binary64 (Zs ! p * stdDev) + mean)\<rfloor>) \<and>
            green img p = red img p \<and> blue img p = red img p \<and>
            (stdDev = 0 \<and> mean = 300 \<longrightarrow> red img p = 255) \<and>
            (stdDev = 0 \<and> mean = - 50 \<longrightarrow> red img p = 0))))"
proof (intro conjI impI allI)
  assume "fair_source (Math_random E)"
  from draw_noise_fair[OF this, of mean stdDev opacity "draws w"]
  show "\<exists>u w'. generateNoisePattern E (Some mean) (Some stdDev) (Some opacity) w
                  = Some (u, w')"
    by (auto simp: generateNoisePattern_draw)
next
  fix u w'
  assume g: "generateNoisePattern E (Some mean) (Some stdDev) (Some opacity) w
               = Some (u, w')"
  then obtain img where
    d: "draw_noise E mean stdDev opacity (draws w) = Some (img, draws w')" and
    u: "u = toDataURL E img"
    by (auto simp: generateNoisePattern_draw split: option.splits)
  from draw_noise_SomeD[OF d] obtain Zs where
    Zs: "sample_seq E (256 * 256) (draws w) = Some (Zs, draws w')"
    by (auto simp: CANVAS_SIZE_def)
  have "\<forall>p. p < 256 * 256 \<longrightarrow>
            uint (red img p) = min 255 (max 0 \<lfloor>binary64 (binary64 (Zs ! p * stdDev) + mean)\<rfloor>) \<and>
            green img p = red img p \<and> blue img p = red img p \<and>
            (stdDev = 0 \<and> mean = 300 \<longrightarrow> red img p = 255) \<and>
            (stdDev = 0 \<and> mean = - 50 \<longrightarrow> red img p = 0)"
  proof (intro allI impI)
    fix p :: nat assume p: "p < 256 * 256"
    have r: "red img p = word_of_int (luminance mean stdDev (Zs ! p))"
      by (rule draw_noise_red[OF d Zs p])
    have "uint (red img p) = luminance mean stdDev (Zs ! p)"
      unfolding r using luminance_range[of mean stdDev "Zs ! p"]
      by (intro uint_byte_of_int) auto
    moreover have "stdDev = 0 \<and> mean = 300 \<longrightarrow> red img p = 255"
      unfolding r by (auto simp: luminance_saturated)
    moreover have "stdDev = 0 \<and> mean = - 50 \<longrightarrow> red img p = 0"
      unfolding r by (auto simp: luminance_saturated)
    ultimately show "uint (red img p) = min 255 (max 0 \<lfloor>binary64 (binary64 (Zs ! p * stdDev) + mean)\<rfloor>) \<and>
            green img p = red img p \<and> blue img p = red img p \<and>
            (stdDev = 0 \<and> mean = 300 \<longrightarrow> red img p = 255) \<and>
            (stdDev = 0 \<and> mean = - 50 \<longrightarrow> red img p = 0)"
      using draw_noise_image(5,6)[OF d p] by (simp add: luminance_def)
  qed
  with Zs d u
  show "\<exists>Zs img. sample_seq E (256 * 256) (draws w) = Some (Zs, draws w') \<and>
         draw_noise E mean stdDev opacity (draws w) = Some (img, draws w') \<and>
         u = toDataURL E img \<and>
         (\<forall>p. p < 256 * 256 \<longrightarrow>
            uint (red img p) = min 255 (max 0 \<lfloor>binary64 (binary64 (Zs ! p * stdDev) + mean)\<rfloor>) \<and>
            green img p = red img p \<and> blue img p = red img p \<and>
            (stdDev = 0 \<and> mean = 300 \<longrightarrow> red img p = 255) \<and>
            (stdDev = 0 \<and> mean = - 50 \<longrightarrow> red img p = 0))"
    by blast
qed

theorem generateNoisePattern_luminance_witness:
  "(\<exists>img w'. generateNoisePattern half_engine (Some 300) (Some 0) (Some 5) world0
                = Some (img, w') \<and>
      red img 0 = 255 \<and> green img 0 = 255 \<and> blue img 0 = 255 \<and> red img 65535 = 255) \<and>
   (\<exists>img w'. generateNoisePattern half_engine (Some (- 50)) (Some 0) (Some 5) world0
                = Some (img, w') \<and>
      red img 0 = 0 \<and> green img 0 = 0 \<and> blue img 0 = 0 \<and> blue img 65535 = 0)"
proof -
  note hi = generateNoisePattern_luminance[of half_engine 300 0 5 world0]
  note lo = generateNoisePattern_luminance[of half_engine "- 50" 0 5 world0]
  from hi[THEN conjunct1, THEN mp, OF fair_half_engine] obtain img w' where
    g: "generateNoisePattern half_engine (Some 300) (Some 0) (Some 5) world0 = Some (img, w')"
    by blast
  from hi[THEN conjunct2, THEN spec, THEN spec, THEN mp, OF g] obtain img' where
    i: "img = toDataURL half_engine img'" "\<forall>p. p < 256 * 256 \<longrightarrow> green img' p = red img' p \<and>
       blue img' p = red img' p \<and> ((0::real) = 0 \<and> (300::real) = 300 \<longrightarrow> red img' p = 255)"
    by blast
  have a: "red img 0 = 255 \<and> green img 0 = 255 \<and> blue img 0 = 255 \<and> red img 65535 = 255"
    using i(2)[rule_format, of 0] i(2)[rule_format, of 65535] i(1) by simp
  from lo[THEN conjunct1, THEN mp, OF fair_half_engine] obtain im2 w2 where
    g2: "generateNoisePattern half_engine (Some (- 50)) (Some 0) (Some 5) world0
           = Some (im2, w2)"
    by blast
  from lo[THEN conjunct2, THEN spec, THEN spec, THEN mp, OF g2] obtain im2' where
    i2: "im2 = toDataURL half_engine im2'" "\<forall>p. p < 256 * 256 \<longrightarrow> green im2' p = red im2' p \<and>
       blue im2' p = red im2' p \<and> ((0::real) = 0 \<and> (- 50::real) = - 50 \<longrightarrow> red im2' p = 0)"
    by blast
  have b: "red im2 0 = 0 \<and> green im2 0 = 0 \<and> blue im2 0 = 0 \<and> blue im2 65535 = 0"
    using i2(2)[rule_format, of 0] i2(2)[rule_format, of 65535] i2(1) by simp
  from g a g2 b show ?thesis by blast
qed

lemma binary64_tiny: "binary64 (- 1 / 2 ^ 55 * 1) = - 1 / 2 ^ 55"
proof -
  have "binary64 (1 / 2 ^ 55) = of_int 4503599627370496 * pow2 (- 55 - 52)"
    by (rule binary64_eval) (simp_all add: pow2_def)
  then have "binary64 (1 / 2 ^ 55) = 1 / 2 ^ 55" by (simp add: pow2_def)
  then show ?thesis using binary64_minus[of "1 / 2 ^ 55"] by simp
qed

lemma binary64_below_one: "binary64 (- 1 / 2 ^ 55 + 1) = 1"
proof -
  have "binary64 (- 1 / 2 ^ 55 + 1) = of_int 9007199254740992 * pow2 (- 1 - 52)"
    by (rule binary64_eval) (simp_all add: pow2_def)
  then show ?thesis by (simp add: pow2_def)
qed

lemma luminance_tiny: "luminance 1 1 (- 1 / 2 ^ 55) = 1"
  unfolding luminance_def binary64_tiny binary64_below_one by simp

theorem luminance_real_floor_counterexample:
  "map_option fst (sample_seq (sample_engine (- 1 / 2 ^ 55)) (256 * 256) 0)
     = Some (replicate (256 * 256) (- 1 / 2 ^ 55)) \<and>
   map_option (first_red \<circ> fst)
     (generateNoisePattern (sample_engine (- 1 / 2 ^ 55)) (Some 1) (Some 1) (Some 20) world0)
     = Some 1 \<and>
   min 255 (max 0 \<lfloor>(- 1 / 2 ^ 55) * 1 + (1 :: real)\<rfloor>) = 0"
proof -
  define Z :: real where "Z = - 1 / 2 ^ 55"
  have s: "sample_seq (sample_engine Z) (256 * 256) 0 = Some (replicate (256 * 256) Z, 131072)"
    by (simp add: sample_seq_sample_engine)
  from draw_noise_fair[OF fair_sample_engine, of Z 1 1 20 "draws world0"] obtain img n' where
    d: "draw_noise (sample_engine Z) 1 1 20 (draws world0) = Some (img, n')" by blast
  have s': "sample_seq (sample_engine Z) (256 * 256) (draws world0)
              = Some (replicate (256 * 256) Z, 131072)"
    using s by (simp add: world0_def)
  have lt: "luminance 1 1 Z = 1" unfolding Z_def by (rule luminance_tiny)
  have "red img 0 = word_of_int (luminance 1 1 (replicate (256 * 256) Z ! 0))"
    by (rule draw_noise_red[OF d s']) simp
  then have "red img 0 = 1" by (simp add: lt)
  then have r: "first_red img = 1" by (simp add: first_red_def)
  have g: "map_option (first_red \<circ> fst)
     (generateNoisePattern (sample_engine Z) (Some 1) (Some 1) (Some 20) world0) = Some 1"
    using d r by (simp add: generateNoisePattern_draw)
  have f: "min 255 (max 0 \<lfloor>(- 1 / 2 ^ 55) * 1 + (1 :: real)\<rfloor>) = 0"
    by (simp add: floor_eq_iff)
  show ?thesis using s g f unfolding Z_def by simp
qed

subsection \<open>The cache\<close>

lemma getPattern_miss_fair:
  assumes "fair_source (Math_random E)" and "patterns this (getKey E mean stdDev opacity) = None"
  shows "\<exists>img n'. draw_noise E mean stdDev opacity (draws w) = Some (img, n') \<and>
           getPattern E this mean stdDev opacity w =
             Some (Some (toDataURL E img),
                   this\<lparr>patterns := (patterns this)(getKey E mean stdDev opacity \<mapsto> toDataURL E img)\<rparr>,
                   w\<lparr>draws := n', synth_log := synth_log w @ [(mean, stdDev, opacity)]\<rparr>)"
proof -
  from draw_noise_fair[OF assms(1), of mean stdDev opacity "draws w"] obtain img n' where
    d: "draw_noise E mean stdDev opacity (draws w) = Some (img, n')" by blast
  then show ?thesis by (simp add: getPattern_miss[OF assms(2)])
qed

lemma getPattern_miss_SomeD:
  assumes "patterns this (getKey E mean stdDev opacity) = None"
    and "getPattern E this mean stdDev opacity w = Some (r, this', w')"
  shows "\<exists>img. draw_noise E mean stdDev opacity (draws w) = Some (img, draws w') \<and>
           r = Some (toDataURL E img) \<and>
           this' = this\<lparr>patterns := (patterns this)(getKey E mean stdDev opacity \<mapsto> toDataURL E img)\<rparr> \<and>
           w' = w\<lparr>draws := draws w', synth_log := synth_log w @ [(mean, stdDev, opacity)]\<rparr>"
  using assms(2) unfolding getPattern_miss[OF assms(1)]
  by (auto split: option.splits)

lemma new_cache_empty [simp]: "patterns NoisePatternCache_new k = None"
  by (simp add: NoisePatternCache_new_def)

lemma Math_round_round: "Math_round x = round x"
  by (simp add: Math_round_def round_def)

lemma getKey_of_rounded:
  "getKey E (of_int (round mean)) (of_int (round stdDev)) (of_int (round opacity))
     = getKey E mean stdDev opacity"
  by (simp add: getKey_def Math_round_round)

lemma getKey_same_rounding:
  "round mean' = round mean \<Longrightarrow> round stdDev' = round stdDev \<Longrightarrow>
     round opacity' = round opacity \<Longrightarrow>
     getKey E mean' stdDev' opacity' = getKey E mean stdDev opacity"
  by (simp add: getKey_def Math_round_round)

lemma getPattern_SomeD:
  assumes "getPattern E this mean stdDev opacity w = Some (r, this', w')"
  shows "(\<exists>x. patterns this (getKey E mean stdDev opacity) = Some x \<and> r = Some x \<and>
              this' = this \<and> w' = w) \<or>
         (\<exists>p. patterns this (getKey E mean stdDev opacity) = None \<and> r = Some p \<and>
              patterns this' = (patterns this)(getKey E mean stdDev opacity \<mapsto> p) \<and>
              synth_log w' = synth_log w @ [(mean, stdDev, opacity)])"
proof (cases "patterns this (getKey E mean stdDev opacity)")
  case None
  from getPattern_miss_SomeD[OF None assms] obtain img where
    i: "r = Some (toDataURL E img)"
       "this' = this\<lparr>patterns := (patterns this)(getKey E mean stdDev opacity \<mapsto> toDataURL E img)\<rparr>"
       "w' = w\<lparr>draws := draws w', synth_log := synth_log w @ [(mean, stdDev, opacity)]\<rparr>"
    by blast
  have "patterns this' = (patterns this)(getKey E mean stdDev opacity \<mapsto> toDataURL E img)"
    by (subst i(2)) simp
  moreover have "synth_log w' = synth_log w @ [(mean, stdDev, opacity)]"
    by (subst i(3)) simp
  ultimately show ?thesis using None i(1) by blast
next
  case (Some x)
  have "getPattern E this mean stdDev opacity w = Some (Some x, this, w)"
    by (rule getPattern_hit[OF Some])
  with assms have "r = Some x" "this' = this" "w' = w" by simp_all
  with Some show ?thesis by blast
qed

lemma getPattern_keeps_invariant:
  assumes "distinct (map (key_of E) (synth_log w))"
    and "key_of E ` set (synth_log w) = dom (patterns this)"
    and "getPattern E this mean stdDev opacity w = Some (r, this', w')"
  shows "distinct (map (key_of E) (synth_log w'))"
    and "key_of E ` set (synth_log w') = dom (patterns this')"
    and "r = patterns this' (getKey E mean stdDev opacity)"
    and "r \<noteq> None"
    and "patterns this k = Some x \<Longrightarrow> patterns this' k = Some x"
proof -
  from getPattern_SomeD[OF assms(3)] consider
    (hit) y where "patterns this (getKey E mean stdDev opacity) = Some y" "r = Some y"
      "this' = this" "w' = w"
  | (miss) p where "patterns this (getKey E mean stdDev opacity) = None" "r = Some p"
      "patterns this' = (patterns this)(getKey E mean stdDev opacity \<mapsto> p)"
      "synth_log w' = synth_log w @ [(mean, stdDev, opacity)]"
    by blast
  then have "distinct (map (key_of E) (synth_log w')) \<and>
             key_of E ` set (synth_log w') = dom (patterns this') \<and>
             r = patterns this' (getKey E mean stdDev opacity) \<and> r \<noteq> None \<and>
             (patterns this k = Some x \<longrightarrow> patterns this' k = Some x)"
  proof cases
    case hit
    with assms(1,2) show ?thesis by simp
  next
    case miss
    have "getKey E mean stdDev opacity \<notin> key_of E ` set (synth_log w)"
      unfolding assms(2) using miss(1) by (simp add: domIff)
    with assms(1,2) miss show ?thesis
      by (auto simp: key_of_def)
  qed
  then show "distinct (map (key_of E) (synth_log w'))"
    and "key_of E ` set (synth_log w') = dom (patterns this')"
    and "r = patterns this' (getKey E mean stdDev opacity)"
    and "r \<noteq> None"
    and "patterns this k = Some x \<Longrightarrow> patterns this' k = Some x"
    by blast+
qed

lemma getPattern_calls_invariant:
  assumes "distinct (map (key_of E) (synth_log w))"
    and "key_of E ` set (synth_log w) = dom (patterns this)"
    and "getPattern_calls E this cs w = Some (rs, this', w')"
  shows "distinct (map (key_of E) (synth_log w')) \<and>
         key_of E ` set (synth_log w') = dom (patterns this') \<and>
         rs = map (\<lambda>c. patterns this' (key_of E c)) cs \<and>
         (\<forall>k x. patterns this k = Some x \<longrightarrow> patterns this' k = Some x)"
  using assms
proof (induction cs arbitrary: this w rs)
  case Nil
  then show ?case by simp
next
  case (Cons c cs)
  obtain mean stdDev opacity where c: "c = (mean, stdDev, opacity)" by (cases c)
  from Cons.prems(3) obtain r this1 w1 rs1 where
    g: "getPattern E this mean stdDev opacity w = Some (r, this1, w1)" and
    gs: "getPattern_calls E this1 cs w1 = Some (rs1, this', w')" and
    rs: "rs = r # rs1"
    unfolding c by (auto split: Option.bind_splits)
  note one = getPattern_keeps_invariant[OF Cons.prems(1,2) g]
  from Cons.IH[OF one(1,2) gs] have
    ih: "distinct (map (key_of E) (synth_log w'))"
        "key_of E ` set (synth_log w') = dom (patterns this')"
        "rs1 = map (\<lambda>c. patterns this' (key_of E c)) cs"
        "\<forall>k x. patterns this1 k = Some x \<longrightarrow> patterns this' k = Some x"
    by blast+
  from one(3,4) obtain p where p: "r = Some p" "patterns this1 (getKey E mean stdDev opacity) = Some p"
    by (cases r) auto
  have "r = patterns this' (key_of E c)"
    using ih(4) p by (simp add: c key_of_def)
  moreover have "\<forall>k x. patterns this k = Some x \<longrightarrow> patterns this' k = Some x"
    using one(5) ih(4) by blast
  ultimately show ?case using ih rs by simp
qed

lemma getPattern_calls_hits:
  assumes "patterns this k = Some p" and "\<forall>c \<in> set cs. key_of E c = k"
  shows "getPattern_calls E this cs w = Some (replicate (length cs) (Some p), this, w)"
  using assms(2)
proof (induction cs)
  case Nil
  show ?case by simp
next
  case (Cons c cs)
  obtain mean stdDev opacity where c: "c = (mean, stdDev, opacity)" by (cases c)
  from Cons.prems have k: "getKey E mean stdDev opacity = k" by (simp add: c key_of_def)
  have "getPattern E this mean stdDev opacity w = Some (Some p, this, w)"
    using assms(1) by (intro getPattern_hit) (simp add: k)
  moreover have "getPattern_calls E this cs w
                   = Some (replicate (length cs) (Some p), this, w)"
    using Cons by simp
  ultimately show ?case by (simp add: c)
qed

lemma getPattern_calls_fair:
  assumes "fair_source (Math_random E)"
  shows "\<exists>rs this' w'. getPattern_calls E this cs w = Some (rs, this', w')"
proof (induction cs arbitrary: this w)
  case Nil
  show ?case by simp
next
  case (Cons c cs)
  obtain mean stdDev opacity where c: "c = (mean, stdDev, opacity)" by (cases c)
  have "\<exists>r this1 w1. getPattern E this mean stdDev opacity w = Some (r, this1, w1)"
  proof (cases "patterns this (getKey E mean stdDev opacity)")
    case None
    from getPattern_miss_fair[OF assms None, of w] show ?thesis by blast
  next
    case (Some x)
    then show ?thesis by (simp add: getPattern_hit)
  qed
  then obtain r this1 w1 where
    g: "getPattern E this mean stdDev opacity w = Some (r, this1, w1)" by blast
  from Cons[of this1 w1] obtain rs this' w' where
    "getPattern_calls E this1 cs w1 = Some (rs, this', w')" by blast
  with g show ?case by (simp add: c)
qed

lemma key_of_same_rounding:
  "round mean = a \<Longrightarrow> round stdDev = b \<Longrightarrow> round opacity = c \<Longrightarrow>
     key_of E (mean, stdDev, opacity) = getKey E (of_int a) (of_int b) (of_int c)"
  by (simp add: key_of_def getKey_def Math_round_round)

lemma distinct_map_filter_le_one:
  "distinct (map f xs) \<Longrightarrow> length (filter (\<lambda>x. f x = k) xs) \<le> 1"
proof (induction xs)
  case Nil
  show ?case by simp
next
  case (Cons x xs)
  show ?case
  proof (cases "f x = k")
    case True
    with Cons.prems have "\<forall>y \<in> set xs. f y \<noteq> k" by (auto simp: image_iff)
    then have "filter (\<lambda>x. f x = k) xs = []" by (simp add: filter_empty_conv)
    with True show ?thesis by simp
  next
    case False
    with Cons show ?thesis by simp
  qed
qed

lemma getPattern_calls_same_key:
  assumes "patterns this K = None" and "cs \<noteq> []" and "\<forall>c \<in> set cs. key_of E c = K"
    and "getPattern_calls E this cs w = Some (rs, this', w')"
  shows "\<exists>p. rs = replicate (length cs) (Some p) \<and> synth_log w' = synth_log w @ [hd cs] \<and>
             patterns this' = (patterns this)(K \<mapsto> p)"
proof -
  from assms(2) obtain c cs' where cs: "cs = c # cs'" by (cases cs) auto
  obtain mean stdDev opacity where c: "c = (mean, stdDev, opacity)" by (cases c)
  from assms(3) have K: "getKey E mean stdDev opacity = K" and
    rest: "\<forall>c \<in> set cs'. key_of E c = K"
    by (simp_all add: cs c key_of_def)
  from assms(4) obtain r this1 w1 rs1 where
    g: "getPattern E this mean stdDev opacity w = Some (r, this1, w1)" and
    gs: "getPattern_calls E this1 cs' w1 = Some (rs1, this', w')" and
    rs: "rs = r # rs1"
    unfolding cs c by (auto split: Option.bind_splits)
  from getPattern_SomeD[OF g] assms(1) obtain p where
    p: "r = Some p" "patterns this1 = (patterns this)(K \<mapsto> p)"
       "synth_log w1 = synth_log w @ [(mean, stdDev, opacity)]"
    unfolding K by auto
  have "patterns this1 K = Some p" by (simp add: p(2))
  from getPattern_calls_hits[OF this rest, of w1] gs have
    "rs1 = replicate (length cs') (Some p)" "this' = this1" "w' = w1"
    by simp_all
  with p rs show ?thesis by (simp add: cs c)
qed

lemma getPattern_calls_keeps:
  assumes "patterns this k = Some x"
    and "getPattern_calls E this cs w = Some (rs, this', w')"
  shows "patterns this' k = Some x"
  using assms
proof (induction cs arbitrary: this w rs)
  case Nil
  then show ?case by simp
next
  case (Cons c cs)
  obtain mean stdDev opacity where c: "c = (mean, stdDev, opacity)" by (cases c)
  from Cons.prems(2) obtain r this1 w1 rs1 where
    g: "getPattern E this mean stdDev opacity w = Some (r, this1, w1)" and
    gs: "getPattern_calls E this1 cs w1 = Some (rs1, this', w')"
    unfolding c by (auto split: Option.bind_splits)
  have "patterns this1 k = Some x"
    using getPattern_SomeD[OF g] Cons.prems(1) by auto
  from Cons.IH[OF this gs] show ?case .
qed

lemma getPattern_stored:
  assumes "getPattern E this mean stdDev opacity w = Some (r, this', w')"
  shows "patterns this' (getKey E mean stdDev opacity) = r" and "r \<noteq> None"
  using getPattern_SomeD[OF assms] by auto

subsection \<open>The alpha channel\<close>

lemma getPattern_again:
  fixes mean' stdDev' opacity' :: real
  assumes g: "getPattern E this mean stdDev opacity w = Some (r, this1, w1)"
    and gs: "getPattern_calls E this1 cs w1 = Some (rs, this2, w2)"
    and m: "round mean' = round mean" and s: "round stdDev' = round stdDev"
    and p: "round opacity' = round opacity"
  shows "getPattern E this2 mean' stdDev' opacity' w2 = Some (r, this2, w2)"
proof -
  have k: "getKey E mean' stdDev' opacity' = getKey E mean stdDev opacity"
    using m s p by (rule getKey_same_rounding)
  from getPattern_stored[OF g] obtain x where
    x: "r = Some x" "patterns this1 (getKey E mean stdDev opacity) = Some x"
    by (cases r) simp_all
  have "patterns this2 (getKey E mean' stdDev' opacity') = Some x"
    unfolding k by (rule getPattern_calls_keeps[OF x(2) gs])
  then show ?thesis
    unfolding x(1) by (rule getPattern_hit)
qed

text \<open>
  Claim C1, as amended. For every mean and stdDev and every opacity in \<open>[0, 100]\<close>, a call
  of \<open>getPattern\<close> whose key is not in the cache returns (on a source that does not stay at
  0 for ever) the encoding of an image of exactly 256 by 256 pixels whose alpha byte is the
  same on every pixel: the double \<open>255 * (opacity / 100)\<close>, the quotient and the product each
  rounded to a double, rounded to the nearest integer, a tie going to the even neighbour.
  A call whose key is in the cache returns the stored pattern; and what a call has
  returned, every later call whose parameters round to the same integers returns again,
  whatever its own opacity.
\<close>

theorem getPattern_image_alpha:
  assumes "0 \<le> opacity" and "opacity \<le> 100"
  shows "(fair_source (Math_random E) \<and> patterns this (getKey E mean stdDev opacity) = None \<longrightarrow>
            (\<exists>r this' w'. getPattern E this mean stdDev opacity w = Some (r, this', w'))) \<and>
         (\<forall>r this' w'. patterns this (getKey E mean stdDev opacity) = None \<and>
              getPattern E this mean stdDev opacity w = Some (r, this', w') \<longrightarrow>
              (\<exists>img. r = Some (toDataURL E img) \<and>
                 draw_noise E mean stdDev opacity (draws w) = Some (img, draws w') \<and>
                 width img = 256 \<and> height img = 256 \<and> length (data img) = 256 * 256 * 4 \<and>
                 (\<forall>p. p < 256 * 256 \<longrightarrow>
                    uint (alpha img p)
                      = round_half_even (binary64 (255 * binary64 (opacity / 100)))))) \<and>
         (\<forall>x. patterns this (getKey E mean stdDev opacity) = Some x \<longrightarrow>
              getPattern E this mean stdDev opacity w = Some (Some x, this, w)) \<and>
         (\<forall>r this1 w1 cs rs this2 w2 (mean' :: real) (stdDev' :: real) (opacity' :: real).
              getPattern E this mean stdDev opacity w = Some (r, this1, w1) \<and>
              getPattern_calls E this1 cs w1 = Some (rs, this2, w2) \<and>
              round mean' = round mean \<and> round stdDev' = round stdDev \<and>
              round opacity' = round opacity \<longrightarrow>
              getPattern E this2 mean' stdDev' opacity' w2 = Some (r, this2, w2))"
proof (intro conjI impI allI)
  assume "fair_source (Math_random E) \<and> patterns this (getKey E mean stdDev opacity) = None"
  then show "\<exists>r this' w'. getPattern E this mean stdDev opacity w = Some (r, this', w')"
    using getPattern_miss_fair[of E this mean stdDev opacity w] by blast
next
  fix r this' w'
  assume a: "patterns this (getKey E mean stdDev opacity) = None \<and>
             getPattern E this mean stdDev opacity w = Some (r, this', w')"
  from getPattern_miss_SomeD[OF conjunct1[OF a] conjunct2[OF a]] obtain img where
    d: "draw_noise E mean stdDev opacity (draws w) = Some (img, draws w')" and
    r: "r = Some (toDataURL E img)"
    by blast
  note range = alpha_double_range[OF assms]
  have "\<forall>p. p < 256 * 256 \<longrightarrow>
          uint (alpha img p) = round_half_even (binary64 (255 * binary64 (opacity / 100)))"
  proof (intro allI impI)
    fix p :: nat assume p: "p < 256 * 256"
    show "uint (alpha img p) = round_half_even (binary64 (255 * binary64 (opacity / 100)))"
      unfolding draw_noise_image(4)[OF d p] by (rule ToUint8Clamp_mid[OF range])
  qed
  with d r draw_noise_image(1,2,3)[OF d]
  show "\<exists>img. r = Some (toDataURL E img) \<and>
          draw_noise E mean stdDev opacity (draws w) = Some (img, draws w') \<and>
          width img = 256 \<and> height img = 256 \<and> length (data img) = 256 * 256 * 4 \<and>
          (\<forall>p. p < 256 * 256 \<longrightarrow>
             uint (alpha img p) = round_half_even (binary64 (255 * binary64 (opacity / 100))))"
    by blast
next
  fix x assume "patterns this (getKey E mean stdDev opacity) = Some x"
  then show "getPattern E this mean stdDev opacity w = Some (Some x, this, w)"
    by (rule getPattern_hit)
next
  fix r this1 w1 cs rs this2 w2 and mean' :: real and stdDev' :: real and opacity' :: real
  assume a: "getPattern E this mean stdDev opacity w = Some (r, this1, w1) \<and>
             getPattern_calls E this1 cs w1 = Some (rs, this2, w2) \<and>
             round mean' = round mean \<and> round stdDev' = round stdDev \<and>
             round opacity' = round opacity"
  show "getPattern E this2 mean' stdDev' opacity' w2 = Some (r, this2, w2)"
    by (rule getPattern_again[of E this mean stdDev opacity w r this1 w1 cs rs this2 w2])
       (simp_all only: a)
qed

lemma alpha_eval:
  assumes "binary64 (x / 100) = d" and "binary64 (255 * d) = y"
    and "0 \<le> k" and "k \<le> 255" and "round_half_even y = k"
  shows "ToUint8Clamp (binary64 (255 * binary64 (x / 100))) = word_of_int k"
proof -
  have "\<bar>of_int (round_half_even y) - y\<bar> \<le> 1 / 2" by (rule round_half_even_nearest)
  moreover have "(0 :: real) \<le> of_int k" "of_int k \<le> (255 :: real)"
    using assms(3,4) by simp_all
  ultimately have y: "- 1 / 2 \<le> y" "y \<le> 255 + 1 / 2"
    unfolding assms(5) by linarith+
  show ?thesis
  proof (cases "0 \<le> y \<and> y \<le> 255")
    case True
    then have "uint (ToUint8Clamp y) = k"
      using ToUint8Clamp_mid[of y] assms(5) by simp
    then have "word_of_int (uint (ToUint8Clamp y)) = (word_of_int k :: byte)" by simp
    then show ?thesis unfolding assms(1) assms(2) by simp
  next
    case False
    then consider "y < 0" | "255 < y" by linarith
    then show ?thesis
    proof cases
      case 1
      have "round_half_even y \<le> 0" by (rule round_half_even_le) (use 1 in simp)
      moreover have "ToUint8Clamp y = 0" by (rule ToUint8Clamp_low) (use 1 in simp)
      ultimately show ?thesis unfolding assms(1) assms(2) using assms(3,5) by simp
    next
      case 2
      have "255 \<le> round_half_even y" by (rule round_half_even_ge) (use 2 in simp)
      moreover have "ToUint8Clamp y = 255" by (rule ToUint8Clamp_high) (use 2 in simp)
      ultimately show ?thesis unfolding assms(1) assms(2) using assms(4,5) by simp
    qed
  qed
qed

lemma round_half_even_eq:
  assumes "\<bar>y - of_int k\<bar> < 1 / 2"
  shows "round_half_even y = k"
proof -
  have "of_int k \<le> y + 1 / 2" "y + 1 / 2 < of_int k + 1" using assms by linarith+
  then have "\<lfloor>y + 1 / 2\<rfloor> = k" by (simp add: floor_eq_iff)
  then have r: "round y = k" by (simp add: round_def)
  have "frac y \<noteq> 1 / 2"
  proof
    assume h: "frac y = 1 / 2"
    then have "y = of_int \<lfloor>y\<rfloor> + 1 / 2" by (simp add: frac_def)
    define j where "j = \<lfloor>y\<rfloor> - k"
    have "y - of_int k = of_int j + 1 / 2"
      unfolding j_def using h by (simp add: frac_def)
    with assms have "(- 1 :: real) < of_int j" "of_int j < (0 :: real)" by linarith+
    then have "- 1 < j" "j < 0" by linarith+
    then show False by simp
  qed
  then show ?thesis by (simp add: round_half_even_def r)
qed

lemma alpha_30: "ToUint8Clamp (binary64 (255 * binary64 (30 / 100))) = 76"
proof -
  have a: "binary64 (30 / 100) = of_int 5404319552844595 * pow2 (- 2 - 52)"
    by (rule binary64_eval) (simp_all add: pow2_def)
  have b: "binary64 (255 * (of_int 5404319552844595 * pow2 (- 2 - 52)))
          = of_int 5383208929591296 * pow2 (6 - 52)"
    by (rule binary64_eval) (simp_all add: pow2_def)
  have c: "round_half_even (of_int 5383208929591296 * pow2 (6 - 52)) = 76"
    by (simp add: pow2_def round_half_even_def frac_def)
  show ?thesis using alpha_eval[OF a b _ _ c] by simp
qed

lemma alpha_third: "ToUint8Clamp (binary64 (255 * binary64 (7505999378950827 / 2 ^ 51 / 100))) = 8"
proof -
  have a: "binary64 (7505999378950827 / 2 ^ 51 / 100) = of_int 4803839602528529 * pow2 (- 5 - 52)"
    by (rule binary64_eval) (simp_all add: pow2_def)
  have b: "binary64 (255 * (of_int 4803839602528529 * pow2 (- 5 - 52)))
          = of_int 4785074604081152 * pow2 (3 - 52)"
    by (rule binary64_eval) (simp_all add: pow2_def)
  have c: "round_half_even (of_int 4785074604081152 * pow2 (3 - 52)) = 8"
    by (simp add: pow2_def round_half_even_def frac_def)
  show ?thesis using alpha_eval[OF a b _ _ c] by simp
qed

lemma alpha_19_4: "ToUint8Clamp (binary64 (255 * binary64 (19 / 4 / 100))) = 12"
proof -
  have a: "binary64 (19 / 4 / 100) = of_int 6845471433603154 * pow2 (- 5 - 52)"
    by (rule binary64_eval) (simp_all add: pow2_def)
  have b: "binary64 (255 * (of_int 6845471433603154 * pow2 (- 5 - 52)))
          = of_int 6818731310815642 * pow2 (3 - 52)"
    by (rule binary64_eval) (simp_all add: pow2_def)
  have c: "round_half_even (of_int 6818731310815642 * pow2 (3 - 52)) = 12"
    by (rule round_half_even_eq) (simp add: pow2_def)
  show ?thesis using alpha_eval[OF a b _ _ c] by simp
qed

lemma alpha_399_4: "ToUint8Clamp (binary64 (255 * binary64 (399 / 4 / 100))) = 254"
proof -
  have a: "binary64 (399 / 4 / 100) = of_int 8984681256604140 * pow2 (- 1 - 52)"
    by (rule binary64_eval) (simp_all add: pow2_def)
  have b: "binary64 (255 * (of_int 8984681256604140 * pow2 (- 1 - 52)))
          = of_int 8949584845445530 * pow2 (7 - 52)"
    by (rule binary64_eval) (simp_all add: pow2_def)
  have c: "round_half_even (of_int 8949584845445530 * pow2 (7 - 52)) = 254"
    by (rule round_half_even_eq) (simp add: pow2_def)
  show ?thesis using alpha_eval[OF a b _ _ c] by simp
qed

lemma alpha_5: "ToUint8Clamp (binary64 (255 * binary64 (5 / 100))) = 13"
proof -
  have a: "binary64 (5 / 100) = of_int 7205759403792794 * pow2 (- 5 - 52)"
    by (rule binary64_eval) (simp_all add: pow2_def)
  have b: "binary64 (255 * (of_int 7205759403792794 * pow2 (- 5 - 52)))
          = of_int 7177611906121728 * pow2 (3 - 52)"
    by (rule binary64_eval) (simp_all add: pow2_def)
  have c: "round_half_even (of_int 7177611906121728 * pow2 (3 - 52)) = 13"
    by (rule round_half_even_eq) (simp add: pow2_def)
  show ?thesis using alpha_eval[OF a b _ _ c] by simp
qed

lemma alpha_20: "ToUint8Clamp (binary64 (255 * binary64 (20 / 100))) = 51"
proof -
  have a: "binary64 (20 / 100) = of_int 7205759403792794 * pow2 (- 3 - 52)"
    by (rule binary64_eval) (simp_all add: pow2_def)
  have b: "binary64 (255 * (of_int 7205759403792794 * pow2 (- 3 - 52)))
          = of_int 7177611906121728 * pow2 (5 - 52)"
    by (rule binary64_eval) (simp_all add: pow2_def)
  have c: "round_half_even (of_int 7177611906121728 * pow2 (5 - 52)) = 51"
    by (rule round_half_even_eq) (simp add: pow2_def)
  show ?thesis using alpha_eval[OF a b _ _ c] by simp
qed

lemma round_half_even_30: "round_half_even (binary64 (255 * binary64 (30 / 100))) = 76"
proof -
  have o: "(0::real) \<le> 30" "(30::real) \<le> 100" by simp_all
  have "round_half_even (binary64 (255 * binary64 (30 / 100)))
          = uint (ToUint8Clamp (binary64 (255 * binary64 (30 / 100))))"
    by (rule ToUint8Clamp_mid[OF alpha_double_range[OF o], symmetric])
  then show ?thesis unfolding alpha_30 by simp
qed

theorem getPattern_image_alpha_witness:
  "\<exists>img this' w'.
     getPattern half_engine NoisePatternCache_new 128 50 30 world0
       = Some (Some img, this', w') \<and>
     width img = 256 \<and> height img = 256 \<and> length (data img) = 256 * 256 * 4 \<and>
     uint (alpha img 0) = 76 \<and> uint (alpha img 65535) = 76 \<and>
     getPattern half_engine this' (1281 / 10) (99 / 2) (151 / 5) w' = Some (Some img, this', w')"
proof -
  have o: "(0::real) \<le> 30" "(30::real) \<le> 100" by simp_all
  note t = getPattern_image_alpha[OF o, where E = half_engine
      and this = "NoisePatternCache_new :: ImageData NoisePatternCache"
      and mean = 128 and stdDev = 50 and w = world0]
  have e: "patterns (NoisePatternCache_new :: ImageData NoisePatternCache)
             (getKey half_engine 128 50 30) = None"
    by (rule new_cache_empty)
  from t[THEN conjunct1, rule_format, OF conjI[OF fair_half_engine e]]
  obtain r this' w' where
    g: "getPattern half_engine NoisePatternCache_new 128 50 30 world0 = Some (r, this', w')"
    by blast
  from t[THEN conjunct2, THEN conjunct1, rule_format, OF conjI[OF e g]]
  obtain img where
    i: "r = Some (toDataURL half_engine img)" "width img = 256" "height img = 256"
       "length (data img) = 256 * 256 * 4"
       "\<forall>p. p < 256 * 256 \<longrightarrow>
          uint (alpha img p) = round_half_even (binary64 (255 * binary64 (30 / 100)))"
    by blast
  have r: "r = Some img" using i(1) by simp
  have al: "uint (alpha img 0) = 76" "uint (alpha img 65535) = 76"
    using i(5)[rule_format, of 0] i(5)[rule_format, of 65535]
    by (simp_all only: round_half_even_30)
  have c: "getPattern_calls half_engine this' [] w' = Some ([], this', w')" by simp
  have rd: "round (1281 / 10 :: real) = round (128 :: real)"
    "round (99 / 2 :: real) = round (50 :: real)"
    "round (151 / 5 :: real) = round (30 :: real)"
    by (simp_all add: round_def)
  have "getPattern half_engine this' (1281 / 10) (99 / 2) (151 / 5) w' = Some (r, this', w')"
    by (rule t[THEN conjunct2, THEN conjunct2, THEN conjunct2, rule_format,
          of r this' w' "[]" "[]" this' w' "1281 / 10" "99 / 2" "151 / 5"])
       (simp only: g c rd simp_thms)
  with g r i(2,3,4) al show ?thesis by simp
qed

theorem getPattern_alpha_round_counterexample:
  "map_option first_alpha
     (returned (getPattern half_engine NoisePatternCache_new 128 50 30 world0)) = Some 76 \<and>
   round (255 * 30 / 100 :: real) = 77 \<and>
   map_option first_alpha
     (returned (getPattern half_engine NoisePatternCache_new 128 50
        (7505999378950827 / 2 ^ 51) world0)) = Some 8 \<and>
   round (255 * (7505999378950827 / 2 ^ 51) / 100 :: real) = 9 \<and>
   map (map_option first_alpha)
     (returned_all (getPattern_calls half_engine NoisePatternCache_new
        [(128, 50, 19 / 4), (128, 50, 5)] world0)) = [Some 12, Some 12] \<and>
   round (255 * 5 / 100 :: real) = 13"
proof -
  from getPattern_miss_fair[OF fair_half_engine new_cache_empty, where mean = 128 and stdDev = 50
      and opacity = 30 and w = world0]
  obtain img n' where
    d: "draw_noise half_engine 128 50 30 (draws world0) = Some (img, n')" and
    g: "returned (getPattern half_engine NoisePatternCache_new 128 50 30 world0) = Some img"
    by (auto simp: returned_def)
  have "alpha img 0 = ToUint8Clamp (binary64 (255 * binary64 (30 / 100)))"
    by (rule draw_noise_image(4)[OF d]) simp
  then have a: "first_alpha img = 76"
    unfolding alpha_30 by (simp add: first_alpha_def)
  define x :: real where "x = 7505999378950827 / 2 ^ 51"
  from getPattern_miss_fair[OF fair_half_engine new_cache_empty, where mean = 128 and stdDev = 50
      and opacity = x and w = world0]
  obtain im3 n3 where
    d3: "draw_noise half_engine 128 50 x (draws world0) = Some (im3, n3)" and
    g3: "returned (getPattern half_engine NoisePatternCache_new 128 50 x world0) = Some im3"
    by (auto simp: returned_def)
  have "alpha im3 0 = ToUint8Clamp (binary64 (255 * binary64 (x / 100)))"
    by (rule draw_noise_image(4)[OF d3]) simp
  then have a3: "first_alpha im3 = 8"
    unfolding x_def alpha_third by (simp add: first_alpha_def)
  define y :: real where "y = 19 / 4"
  define c1 :: "ImageData \<Rightarrow> ImageData NoisePatternCache" where
    "c1 im1 = NoisePatternCache_new\<lparr>patterns :=
            (patterns NoisePatternCache_new)(getKey half_engine 128 50 y \<mapsto> im1)\<rparr>" for im1
  define w1 where
    "w1 n1 = world0\<lparr>draws := n1, synth_log := synth_log world0 @ [(128, 50, y)]\<rparr>" for n1
  from getPattern_miss_fair[OF fair_half_engine new_cache_empty, where mean = 128 and stdDev = 50
      and opacity = y and w = world0]
  obtain im1 n1 where
    d1: "draw_noise half_engine 128 50 y (draws world0) = Some (im1, n1)" and
    g1: "getPattern half_engine NoisePatternCache_new 128 50 y world0 =
           Some (Some im1, c1 im1, w1 n1)"
    unfolding c1_def w1_def by auto
  have k: "getKey half_engine 128 50 5 = getKey half_engine 128 50 y"
    by (rule getKey_same_rounding) (simp_all add: y_def round_def)
  have h: "patterns (c1 im1) (getKey half_engine 128 50 5) = Some im1"
    unfolding c1_def k by simp
  have g2: "getPattern half_engine (c1 im1) 128 50 5 (w1 n1) = Some (Some im1, c1 im1, w1 n1)"
    by (rule getPattern_hit[OF h])
  have c: "returned_all (getPattern_calls half_engine NoisePatternCache_new
        [(128, 50, y), (128, 50, 5)] world0) = [Some im1, Some im1]"
    unfolding getPattern_calls.simps g1 by (simp add: g2 returned_all_def)
  have "alpha im1 0 = ToUint8Clamp (binary64 (255 * binary64 (y / 100)))"
    by (rule draw_noise_image(4)[OF d1]) simp
  then have a1: "first_alpha im1 = 12"
    unfolding y_def alpha_19_4 by (simp add: first_alpha_def)
  have r: "round (255 * 30 / 100 :: real) = 77" "round (255 * 5 / 100 :: real) = 13"
    "round (255 * (7505999378950827 / 2 ^ 51) / 100 :: real) = 9"
    by (simp_all add: round_def)
  show ?thesis
    unfolding g g3[unfolded x_def] c[unfolded y_def] r using a a3 a1 by simp
qed

subsection \<open>Opacity outside the range, the key, the defaults\<close>

text \<open>
  Claim C9, as amended. \<open>getPattern\<close> does not look at the range of the opacity: for an
  opacity below 0 or above 100 it returns no error and writes no warning. When the key is
  not yet cached it synthesizes a pattern with exactly these arguments and stores it under
  the key; the alpha byte of every pixel is the double \<open>255 * (opacity / 100)\<close> as the byte
  buffer stores it, which is 255 above 100 and 0 below 0. When the key is cached it
  synthesizes nothing and returns the stored pattern, whatever opacity that one was
  synthesized with.
\<close>

theorem getPattern_unvalidated_opacity:
  assumes "opacity < 0 \<or> 100 < opacity" and "fair_source (Math_random E)"
  shows "(patterns this (getKey E mean stdDev opacity) = None \<longrightarrow>
           (\<exists>img w'.
              getPattern E this mean stdDev opacity w =
                Some (Some (toDataURL E img),
                      this\<lparr>patterns :=
                        (patterns this)(getKey E mean stdDev opacity \<mapsto> toDataURL E img)\<rparr>,
                      w') \<and>
              synth_log w' = synth_log w @ [(mean, stdDev, opacity)] \<and>
              warnings w' = warnings w \<and> width img = 256 \<and> height img = 256 \<and>
              (\<forall>p. p < 256 * 256 \<longrightarrow>
                 alpha img p = ToUint8Clamp (binary64 (255 * binary64 (opacity / 100))) \<and>
                 alpha img p = (if 100 < opacity then 255 else 0)))) \<and>
         (\<forall>x. patterns this (getKey E mean stdDev opacity) = Some x \<longrightarrow>
              getPattern E this mean stdDev opacity w = Some (Some x, this, w))"
proof (intro conjI impI allI)
  assume miss: "patterns this (getKey E mean stdDev opacity) = None"
  from getPattern_miss_fair[OF assms(2) miss, of w] obtain img n' where
    d: "draw_noise E mean stdDev opacity (draws w) = Some (img, n')" and
    g: "getPattern E this mean stdDev opacity w =
          Some (Some (toDataURL E img),
                this\<lparr>patterns := (patterns this)(getKey E mean stdDev opacity \<mapsto> toDataURL E img)\<rparr>,
                w\<lparr>draws := n', synth_log := synth_log w @ [(mean, stdDev, opacity)]\<rparr>)"
    by blast
  have sat: "ToUint8Clamp (binary64 (255 * binary64 (opacity / 100)))
               = (if 100 < opacity then 255 else 0)"
  proof (cases "100 < opacity")
    case True
    then show ?thesis by (simp add: ToUint8Clamp_high[OF alpha_double_high])
  next
    case False
    with assms(1) have "opacity < 0" by simp
    then have "binary64 (255 * binary64 (opacity / 100)) \<le> 0" by (rule alpha_double_low)
    with False show ?thesis by (simp only: ToUint8Clamp_low if_False)
  qed
  have al: "\<forall>p. p < 256 * 256 \<longrightarrow>
              alpha img p = ToUint8Clamp (binary64 (255 * binary64 (opacity / 100))) \<and>
              alpha img p = (if 100 < opacity then 255 else 0)"
  proof (intro allI impI conjI)
    fix p :: nat assume p: "p < 256 * 256"
    show "alpha img p = ToUint8Clamp (binary64 (255 * binary64 (opacity / 100)))"
      by (rule draw_noise_image(4)[OF d p])
    then show "alpha img p = (if 100 < opacity then 255 else 0)"
      by (simp only: sat)
  qed
  show "\<exists>img w'.
              getPattern E this mean stdDev opacity w =
                Some (Some (toDataURL E img),
                      this\<lparr>patterns :=
                        (patterns this)(getKey E mean stdDev opacity \<mapsto> toDataURL E img)\<rparr>,
                      w') \<and>
              synth_log w' = synth_log w @ [(mean, stdDev, opacity)] \<and>
              warnings w' = warnings w \<and> width img = 256 \<and> height img = 256 \<and>
              (\<forall>p. p < 256 * 256 \<longrightarrow>
                 alpha img p = ToUint8Clamp (binary64 (255 * binary64 (opacity / 100))) \<and>
                 alpha img p = (if 100 < opacity then 255 else 0))"
    apply (rule exI[of _ img])
    apply (rule exI[of _ "w\<lparr>draws := n', synth_log := synth_log w @ [(mean, stdDev, opacity)]\<rparr>"])
    apply (intro conjI)
    subgoal by (rule g)
    subgoal by simp
    subgoal by simp
    subgoal by (rule draw_noise_image(1)[OF d])
    subgoal by (rule draw_noise_image(2)[OF d])
    subgoal by (rule al)
    done
next
  fix x assume "patterns this (getKey E mean stdDev opacity) = Some x"
  then show "getPattern E this mean stdDev opacity w = Some (Some x, this, w)"
    by (rule getPattern_hit)
qed

theorem getPattern_unvalidated_opacity_witness:
  "(\<exists>img this' w'.
      getPattern half_engine NoisePatternCache_new 128 50 150 world0
        = Some (Some img, this', w') \<and>
      synth_log w' = [(128, 50, 150)] \<and>
      patterns this' (getKey half_engine 128 50 150) = Some img \<and>
      alpha img 0 = 255 \<and>
      getPattern half_engine this' 128 50 150 w' = Some (Some img, this', w')) \<and>
   (\<exists>img this' w'.
      getPattern half_engine NoisePatternCache_new 128 50 (- 10) world0
        = Some (Some img, this', w') \<and>
      synth_log w' = [(128, 50, - 10)] \<and>
      patterns this' (getKey half_engine 128 50 (- 10)) = Some img \<and>
      alpha img 0 = 0)"
proof -
  have hi: "(150::real) < 0 \<or> 100 < (150::real)" and lo: "(- 10::real) < 0 \<or> 100 < (- 10::real)"
    by simp_all
  have e: "patterns (NoisePatternCache_new :: ImageData NoisePatternCache) k = None" for k
    by (rule new_cache_empty)
  note t = getPattern_unvalidated_opacity[OF hi fair_half_engine,
      where mean = 128 and stdDev = 50]
  from t[where this = "NoisePatternCache_new :: ImageData NoisePatternCache" and w = world0,
      THEN conjunct1, rule_format, OF e]
  obtain img w' where
    a: "getPattern half_engine NoisePatternCache_new 128 50 150 world0 =
          Some (Some (toDataURL half_engine img),
             NoisePatternCache_new\<lparr>patterns :=
               (patterns NoisePatternCache_new)(getKey half_engine 128 50 150
                  \<mapsto> toDataURL half_engine img)\<rparr>, w')"
       "synth_log w' = synth_log world0 @ [(128, 50, 150)]"
       "\<forall>p. p < 256 * 256 \<longrightarrow>
              alpha img p = ToUint8Clamp (binary64 (255 * binary64 (150 / 100))) \<and>
              alpha img p = (if 100 < (150::real) then 255 else 0)"
    by blast
  define c1 :: "ImageData NoisePatternCache" where
    "c1 = NoisePatternCache_new\<lparr>patterns :=
               (patterns NoisePatternCache_new)(getKey half_engine 128 50 150 \<mapsto> img)\<rparr>"
  have h: "patterns c1 (getKey half_engine 128 50 150) = Some img"
    unfolding c1_def by simp
  have again: "getPattern half_engine c1 128 50 150 w' = Some (Some img, c1, w')"
    by (rule t[where this = c1 and w = w', THEN conjunct2, rule_format, OF h])
  from getPattern_unvalidated_opacity[OF lo fair_half_engine,
      where mean = 128 and stdDev = 50
        and this = "NoisePatternCache_new :: ImageData NoisePatternCache" and w = world0,
      THEN conjunct1, rule_format, OF e]
  obtain im2 w2 where
    b: "getPattern half_engine NoisePatternCache_new 128 50 (- 10) world0 =
          Some (Some (toDataURL half_engine im2),
             NoisePatternCache_new\<lparr>patterns :=
               (patterns NoisePatternCache_new)(getKey half_engine 128 50 (- 10)
                  \<mapsto> toDataURL half_engine im2)\<rparr>, w2)"
       "synth_log w2 = synth_log world0 @ [(128, 50, - 10)]"
       "\<forall>p. p < 256 * 256 \<longrightarrow>
              alpha im2 p = ToUint8Clamp (binary64 (255 * binary64 (- 10 / 100))) \<and>
              alpha im2 p = (if 100 < (- 10::real) then 255 else 0)"
    by blast
  have z: "(0::nat) < 256 * 256" by simp
  have a0: "alpha img 0 = 255" using a(3)[rule_format, OF z, THEN conjunct2] by simp
  have b0: "alpha im2 0 = 0" using b(3)[rule_format, OF z, THEN conjunct2] by simp
  have first: "\<exists>img this' w'.
      getPattern half_engine NoisePatternCache_new 128 50 150 world0
        = Some (Some img, this', w') \<and>
      synth_log w' = [(128, 50, 150)] \<and>
      patterns this' (getKey half_engine 128 50 150) = Some img \<and>
      alpha img 0 = 255 \<and>
      getPattern half_engine this' 128 50 150 w' = Some (Some img, this', w')"
    apply (rule exI[of _ img])
    apply (rule exI[of _ c1])
    apply (rule exI[of _ w'])
    using a(1,2) a0 h again by (simp add: world0_def c1_def)
  have second: "\<exists>img this' w'.
      getPattern half_engine NoisePatternCache_new 128 50 (- 10) world0
        = Some (Some img, this', w') \<and>
      synth_log w' = [(128, 50, - 10)] \<and>
      patterns this' (getKey half_engine 128 50 (- 10)) = Some img \<and>
      alpha img 0 = 0"
    using b(1,2) b0 by (simp add: world0_def)
  from first second show ?thesis by (rule conjI)
qed

theorem getPattern_cached_opacity_counterexample:
  "map (map_option first_alpha)
     (returned_all (getPattern_calls half_engine NoisePatternCache_new
        [(128, 50, 399 / 4), (128, 50, 401 / 4)] world0)) = [Some 254, Some 254] \<and>
   map_option (\<lambda>(rs, this', w'). synth_log w')
     (getPattern_calls half_engine NoisePatternCache_new
        [(128, 50, 399 / 4), (128, 50, 401 / 4)] world0) = Some [(128, 50, 399 / 4)] \<and>
   (100 :: real) < 401 / 4"
proof -
  define y :: real where "y = 399 / 4"
  define y' :: real where "y' = 401 / 4"
  define c1 :: "ImageData \<Rightarrow> ImageData NoisePatternCache" where
    "c1 im1 = NoisePatternCache_new\<lparr>patterns :=
            (patterns NoisePatternCache_new)(getKey half_engine 128 50 y \<mapsto> im1)\<rparr>" for im1
  define w1 where
    "w1 n1 = world0\<lparr>draws := n1, synth_log := synth_log world0 @ [(128, 50, y)]\<rparr>" for n1
  from getPattern_miss_fair[OF fair_half_engine new_cache_empty, where mean = 128 and stdDev = 50
      and opacity = y and w = world0]
  obtain im1 n1 where
    d1: "draw_noise half_engine 128 50 y (draws world0) = Some (im1, n1)" and
    g1: "getPattern half_engine NoisePatternCache_new 128 50 y world0 =
           Some (Some im1, c1 im1, w1 n1)"
    unfolding c1_def w1_def by auto
  have k: "getKey half_engine 128 50 y' = getKey half_engine 128 50 y"
    by (rule getKey_same_rounding) (simp_all add: y_def y'_def round_def)
  have h: "patterns (c1 im1) (getKey half_engine 128 50 y') = Some im1"
    unfolding c1_def k by simp
  have g2: "getPattern half_engine (c1 im1) 128 50 y' (w1 n1) = Some (Some im1, c1 im1, w1 n1)"
    by (rule getPattern_hit[OF h])
  have c: "getPattern_calls half_engine NoisePatternCache_new
        [(128, 50, y), (128, 50, y')] world0 = Some ([Some im1, Some im1], c1 im1, w1 n1)"
    unfolding getPattern_calls.simps g1 by (simp add: g2)
  have "alpha im1 0 = ToUint8Clamp (binary64 (255 * binary64 (y / 100)))"
    by (rule draw_noise_image(4)[OF d1]) simp
  then have a1: "first_alpha im1 = 254"
    unfolding y_def alpha_399_4 by (simp add: first_alpha_def)
  have l: "synth_log (w1 n1) = [(128, 50, y)]" by (simp add: w1_def world0_def)
  show ?thesis
    unfolding c[unfolded y_def y'_def] using a1 l by (simp add: returned_all_def y_def)
qed

text \<open>
  Claim C4. The key is the decimal renderings of the three parameters, each rounded to the
  nearest integer, joined by \<open>-\<close>. On a miss \<open>getPattern\<close> calls the synthesizer with the
  parameters as they were given, and stores what it returns under the key of the rounded
  parameters.
\<close>

theorem getKey_rounds_getPattern_synthesizes_unrounded:
  "getKey E mean stdDev opacity =
     Number_toString (big_toString E) (round mean) @ ''-'' @ Number_toString (big_toString E) (round stdDev) @ ''-''
       @ Number_toString (big_toString E) (round opacity) \<and>
   (fair_source (Math_random E) \<and> patterns this (getKey E mean stdDev opacity) = None \<longrightarrow>
      (\<exists>r this' w'. getPattern E this mean stdDev opacity w = Some (r, this', w'))) \<and>
   (\<forall>r this' w'. patterns this (getKey E mean stdDev opacity) = None \<and>
        getPattern E this mean stdDev opacity w = Some (r, this', w') \<longrightarrow>
        (\<exists>p. generateNoisePattern E (Some mean) (Some stdDev) (Some opacity) w
                = Some (p, w') \<and>
           synth_log w' = synth_log w @ [(mean, stdDev, opacity)] \<and>
           r = Some p \<and>
           patterns this' =
             (patterns this)(getKey E (of_int (round mean)) (of_int (round stdDev))
                               (of_int (round opacity)) \<mapsto> p)))"
proof (intro conjI impI allI)
  show "getKey E mean stdDev opacity =
     Number_toString (big_toString E) (round mean) @ ''-'' @ Number_toString (big_toString E) (round stdDev) @ ''-''
       @ Number_toString (big_toString E) (round opacity)"
    by (simp add: getKey_def Math_round_round)
next
  assume "fair_source (Math_random E) \<and> patterns this (getKey E mean stdDev opacity) = None"
  then show "\<exists>r this' w'. getPattern E this mean stdDev opacity w
                            = Some (r, this', w')"
    using getPattern_miss_fair[of E this mean stdDev opacity w] by blast
next
  fix r this' w'
  assume a: "patterns this (getKey E mean stdDev opacity) = None \<and>
             getPattern E this mean stdDev opacity w = Some (r, this', w')"
  from getPattern_miss_SomeD[OF conjunct1[OF a] conjunct2[OF a]] obtain img where
    i: "draw_noise E mean stdDev opacity (draws w) = Some (img, draws w')"
       "r = Some (toDataURL E img)"
       "this' = this\<lparr>patterns := (patterns this)(getKey E mean stdDev opacity \<mapsto> toDataURL E img)\<rparr>"
       "w' = w\<lparr>draws := draws w', synth_log := synth_log w @ [(mean, stdDev, opacity)]\<rparr>"
    by blast
  have g: "generateNoisePattern E (Some mean) (Some stdDev) (Some opacity) w
             = Some (toDataURL E img, w')"
    using i(1) i(4) by (simp add: generateNoisePattern_draw)
  have l: "synth_log w' = synth_log w @ [(mean, stdDev, opacity)]"
    by (subst i(4)) simp
  have "patterns this' = (patterns this)(getKey E (of_int (round mean)) (of_int (round stdDev))
                               (of_int (round opacity)) \<mapsto> toDataURL E img)"
    unfolding getKey_of_rounded by (subst i(3)) simp
  with g l i(2)
  show "\<exists>p. generateNoisePattern E (Some mean) (Some stdDev) (Some opacity) w
                = Some (p, w') \<and>
           synth_log w' = synth_log w @ [(mean, stdDev, opacity)] \<and>
           r = Some p \<and>
           patterns this' =
             (patterns this)(getKey E (of_int (round mean)) (of_int (round stdDev))
                               (of_int (round opacity)) \<mapsto> p)"
    by blast
qed

lemma getKey_example: "getKey half_engine (638 / 5) (99 / 2) (27 / 5) = ''128-50-5''"
  by (simp add: getKey_def Math_round_def Number_toString_def decimal_string_def digits_of.simps)

theorem getKey_rounds_getPattern_synthesizes_unrounded_witness:
  "getKey half_engine (638 / 5) (99 / 2) (27 / 5) = ''128-50-5'' \<and>
   (\<exists>p this' w'.
      getPattern half_engine NoisePatternCache_new (638 / 5) (99 / 2) (27 / 5) world0
        = Some (Some p, this', w') \<and>
      synth_log w' = [(638 / 5, 99 / 2, 27 / 5)] \<and>
      patterns this' = Map.empty(getKey half_engine 128 50 5 \<mapsto> p))"
proof -
  note t = getKey_rounds_getPattern_synthesizes_unrounded[where mean = "638 / 5"
      and stdDev = "99 / 2" and opacity = "27 / 5" and E = half_engine
      and this = "NoisePatternCache_new :: ImageData NoisePatternCache" and w = world0]
  from t fair_half_engine new_cache_empty obtain r this' w' where
    g: "getPattern half_engine NoisePatternCache_new (638 / 5) (99 / 2) (27 / 5) world0
          = Some (r, this', w')"
    by blast
  from t g new_cache_empty obtain p where
    p: "synth_log w' = synth_log world0 @ [(638 / 5, 99 / 2, 27 / 5)]" "r = Some p"
       "patterns this' = (patterns NoisePatternCache_new)
          (getKey half_engine (of_int (round (638 / 5 :: real))) (of_int (round (99 / 2 :: real)))
             (of_int (round (27 / 5 :: real))) \<mapsto> p)"
    by blast
  have rd: "round (638 / 5 :: real) = 128" "round (99 / 2 :: real) = 50"
    "round (27 / 5 :: real) = 5"
    by (simp_all add: round_def)
  have "patterns this' = Map.empty(getKey half_engine 128 50 5 \<mapsto> p)"
    using p(3) unfolding rd by (simp add: NoisePatternCache_new_def)
  with g p(1,2) getKey_example show ?thesis by (simp add: world0_def)
qed

subsection \<open>One synthesis for each key\<close>

text \<open>
  Claim C3. On a cache whose entries are exactly the patterns synthesized so far (the new
  cache is one), any sequence of \<open>getPattern\<close> calls returns on a source that does not
  stay at 0 for ever, and when it has returned the synthesizer has run at most once for
  each key and every call has received the pattern stored under its key. If the sequence
  is not empty, all its parameter triples round to one integer triple and the key of that
  triple was not cached, then the synthesizer has run exactly once more (for the first
  call), every call has received the same pattern, and the store has exactly one entry
  more.
\<close>

theorem getPattern_calls_one_synthesis:
  assumes "distinct (map (key_of E) (synth_log w))"
    and "key_of E ` set (synth_log w) = dom (patterns this)"
  shows "(fair_source (Math_random E) \<longrightarrow>
            (\<exists>rs this' w'. getPattern_calls E this cs w = Some (rs, this', w'))) \<and>
         (\<forall>rs this' w'. getPattern_calls E this cs w = Some (rs, this', w') \<longrightarrow>
            (\<forall>k. length (filter (\<lambda>c. key_of E c = k) (synth_log w')) \<le> 1) \<and>
            rs = map (\<lambda>c. patterns this' (key_of E c)) cs \<and>
            (cs \<noteq> [] \<and>
             (\<forall>c \<in> set cs. round (fst c) = a \<and> round (fst (snd c)) = b \<and>
                              round (snd (snd c)) = d) \<and>
             patterns this (getKey E (of_int a) (of_int b) (of_int d)) = None \<longrightarrow>
               (\<exists>p. rs = replicate (length cs) (Some p) \<and>
                  synth_log w' = synth_log w @ [hd cs] \<and>
                  patterns this' =
                    (patterns this)(getKey E (of_int a) (of_int b) (of_int d) \<mapsto> p) \<and>
                  card (dom (patterns this')) = card (dom (patterns this)) + 1)))"
proof (intro conjI impI allI)
  assume "fair_source (Math_random E)"
  then show "\<exists>rs this' w'. getPattern_calls E this cs w = Some (rs, this', w')"
    by (rule getPattern_calls_fair)
next
  fix rs this' w' k
  assume g: "getPattern_calls E this cs w = Some (rs, this', w')"
  from getPattern_calls_invariant[OF assms g]
  show "length (filter (\<lambda>c. key_of E c = k) (synth_log w')) \<le> 1"
    by (intro distinct_map_filter_le_one) blast
next
  fix rs this' w'
  assume g: "getPattern_calls E this cs w = Some (rs, this', w')"
  from getPattern_calls_invariant[OF assms g]
  show "rs = map (\<lambda>c. patterns this' (key_of E c)) cs" by blast
next
  fix rs this' w'
  assume g: "getPattern_calls E this cs w = Some (rs, this', w')"
    and h: "cs \<noteq> [] \<and>
             (\<forall>c \<in> set cs. round (fst c) = a \<and> round (fst (snd c)) = b \<and>
                              round (snd (snd c)) = d) \<and>
             patterns this (getKey E (of_int a) (of_int b) (of_int d)) = None"
  define K where "K = getKey E (of_int a) (of_int b) (of_int d)"
  have keys: "\<forall>c \<in> set cs. key_of E c = K"
  proof
    fix c assume "c \<in> set cs"
    with h have "round (fst c) = a" "round (fst (snd c)) = b" "round (snd (snd c)) = d"
      by auto
    from key_of_same_rounding[OF this] show "key_of E c = K" by (simp add: K_def)
  qed
  from h have none: "patterns this K = None" and ne: "cs \<noteq> []" by (simp_all add: K_def)
  from getPattern_calls_same_key[OF none ne keys g] obtain p where
    p: "rs = replicate (length cs) (Some p)" "synth_log w' = synth_log w @ [hd cs]"
       "patterns this' = (patterns this)(K \<mapsto> p)"
    by blast
  have fin: "finite (dom (patterns this))"
    unfolding assms(2)[symmetric] by simp
  have "K \<notin> dom (patterns this)" using none by (simp add: domIff)
  with fin have "card (dom (patterns this')) = card (dom (patterns this)) + 1"
    by (simp add: p(3))
  with p show "\<exists>p. rs = replicate (length cs) (Some p) \<and>
                  synth_log w' = synth_log w @ [hd cs] \<and>
                  patterns this' =
                    (patterns this)(getKey E (of_int a) (of_int b) (of_int d) \<mapsto> p) \<and>
                  card (dom (patterns this')) = card (dom (patterns this)) + 1"
    unfolding K_def by blast
qed

theorem getPattern_calls_one_synthesis_witness:
  "\<exists>p this' w'.
     getPattern_calls half_engine NoisePatternCache_new
       [(100, 20, 5), (502 / 5, 39 / 2, 26 / 5), (100, 20, 5)] world0
       = Some ([Some p, Some p, Some p], this', w') \<and>
     synth_log w' = [(100, 20, 5)] \<and> card (dom (patterns this')) = 1"
proof -
  define cs :: "(real \<times> real \<times> real) list" where
    "cs = [(100, 20, 5), (502 / 5, 39 / 2, 26 / 5), (100, 20, 5)]"
  have i1: "distinct (map (key_of half_engine) (synth_log world0))"
    and i2: "key_of half_engine ` set (synth_log world0)
               = dom (patterns (NoisePatternCache_new :: ImageData NoisePatternCache))"
    by (simp_all add: world0_def NoisePatternCache_new_def)
  note t = getPattern_calls_one_synthesis[OF i1 i2, where cs = cs and a = 100 and b = 20 and d = 5]
  from t[THEN conjunct1, THEN mp, OF fair_half_engine] obtain rs this' w' where
    g: "getPattern_calls half_engine NoisePatternCache_new cs world0 = Some (rs, this', w')"
    by blast
  have h: "cs \<noteq> [] \<and>
           (\<forall>c \<in> set cs. round (fst c) = 100 \<and> round (fst (snd c)) = 20 \<and>
                            round (snd (snd c)) = 5) \<and>
           patterns NoisePatternCache_new (getKey half_engine (of_int 100) (of_int 20) (of_int 5)) = None"
    by (simp add: cs_def round_def)
  note t2 = t[THEN conjunct2, THEN spec, THEN spec, THEN spec, THEN mp, OF g]
  from t2[THEN conjunct2, THEN conjunct2, THEN mp, OF h] obtain p where
    pp: "rs = replicate (length cs) (Some p) \<and> synth_log w' = synth_log world0 @ [hd cs] \<and>
       patterns this' = (patterns NoisePatternCache_new)
          (getKey half_engine (of_int 100) (of_int 20) (of_int 5) \<mapsto> p) \<and>
       card (dom (patterns this'))
         = card (dom (patterns (NoisePatternCache_new :: ImageData NoisePatternCache))) + 1" ..
  note p = pp[THEN conjunct1] pp[THEN conjunct2, THEN conjunct1]
    pp[THEN conjunct2, THEN conjunct2, THEN conjunct1]
    pp[THEN conjunct2, THEN conjunct2, THEN conjunct2]
  have "rs = [Some p, Some p, Some p]" using p(1) by (simp add: cs_def)
  moreover have "synth_log w' = [(100, 20, 5)]" using p(2) by (simp add: cs_def world0_def)
  moreover have "card (dom (patterns this')) = 1"
    using p(4) by (simp add: NoisePatternCache_new_def)
  ultimately show ?thesis using g unfolding cs_def by (intro exI[of _ p] exI[of _ this'] exI[of _ w']) simp
qed

subsection \<open>The utility and its checks\<close>

lemma parseInt_undefined: "parseInt None = None"
  by (simp add: parseInt_def parseInt_string_def is_digit_def digit_value_def is_white_def)

lemma parse_noise_value_no_comma:
  "CHR '','' \<notin> set v \<Longrightarrow> parse_noise_value (Some v) = Inl MalformedParameterString"
  by (simp add: parse_noise_value_def)

lemma parse_noise_value_fields:
  assumes "CHR '','' \<in> set v"
  shows "parse_noise_value (Some v) =
     (case (parseInt (element (noise_fields v) 0),
            parseInt (element (noise_fields v) 1),
            parseInt (element (noise_fields v) 2)) of
        (Some mean, Some stdDev, Some opacity) \<Rightarrow>
          if opacity < 0 \<or> opacity > 100 then Inl OpacityOutOfRange
          else Inr (mean, stdDev, opacity)
      | _ \<Rightarrow> Inl NonNumericParameter)"
proof -
  from assms have "v \<noteq> []" by auto
  with assms show ?thesis by (simp add: parse_noise_value_def Let_def)
qed

lemma split_comma_no_comma: "CHR '','' \<notin> set a \<Longrightarrow> split_comma a = [a]"
  by (induction a) auto

lemma split_comma_append:
  "CHR '','' \<notin> set a \<Longrightarrow> split_comma (a @ CHR '','' # b) = a # split_comma b"
  by (induction a) auto

lemma third_field_comma:
  assumes "parseInt (element (noise_fields v) 2) = Some opacity"
  shows "CHR '','' \<in> set v"
proof (rule ccontr)
  assume "CHR '','' \<notin> set v"
  then have "element (noise_fields v) 2 = None"
    by (simp add: noise_fields_def split_comma_no_comma element_def)
  with assms show False by (simp add: parseInt_undefined)
qed

lemma noise_utility_error:
  assumes "parse_noise_value val = Inl err"
  shows "noise_utility E st val w =
     Some (\<lparr>background_image = defaultPattern st, background_repeat = ''repeat''\<rparr>, st,
           w\<lparr>warnings := warnings w
                @ [''Noise pattern error: '' @ message err @ ''. Using default pattern.'']\<rparr>)"
  by (simp add: noise_utility_def assms)

lemma getKey_default: "getKey E defaultMean defaultStdDev defaultOpacity = ''128-50-5''"
  by (simp add: defaultMean_def defaultStdDev_def defaultOpacity_def getKey_def Math_round_def
      Number_toString_def decimal_string_def digits_of.simps)

lemma plugin_init_SomeD:
  assumes "plugin_init E w = Some (st, w')"
  shows "\<exists>img. draw_noise E 128 50 5 (draws w) = Some (img, draws w') \<and>
           defaultPattern st = Some (toDataURL E img) \<and>
           patterns (patternCache st) = Map.empty(''128-50-5'' \<mapsto> toDataURL E img) \<and>
           synth_log w' = synth_log w @ [(128, 50, 5)] \<and> warnings w' = warnings w"
proof -
  from assms obtain r c where
    g: "getPattern E NoisePatternCache_new defaultMean defaultStdDev defaultOpacity w
          = Some (r, c, w')" and
    st: "st = \<lparr>patternCache = c, defaultPattern = r\<rparr>"
    by (auto simp: plugin_init_def split: Option.bind_splits)
  from getPattern_miss_SomeD[OF new_cache_empty g] obtain img where
    i: "draw_noise E defaultMean defaultStdDev defaultOpacity (draws w) = Some (img, draws w')"
       "r = Some (toDataURL E img)"
       "c = NoisePatternCache_new\<lparr>patterns := (patterns NoisePatternCache_new)
              (getKey E defaultMean defaultStdDev defaultOpacity \<mapsto> toDataURL E img)\<rparr>"
       "w' = w\<lparr>draws := draws w',
               synth_log := synth_log w @ [(defaultMean, defaultStdDev, defaultOpacity)]\<rparr>"
    by blast
  have "patterns (patternCache st) = Map.empty(''128-50-5'' \<mapsto> toDataURL E img)"
    unfolding st i(3) getKey_default by (simp add: NoisePatternCache_new_def)
  moreover have "synth_log w' = synth_log w @ [(128, 50, 5)]"
    by (subst i(4)) (simp add: defaultMean_def defaultStdDev_def defaultOpacity_def)
  moreover have "warnings w' = warnings w"
    by (subst i(4)) simp
  moreover have "draw_noise E 128 50 5 (draws w) = Some (img, draws w')"
    using i(1) by (simp add: defaultMean_def defaultStdDev_def defaultOpacity_def)
  ultimately show ?thesis using i(2) st by simp
qed

lemma plugin_init_fair:
  assumes "fair_source (Math_random E)"
  shows "\<exists>st w'. plugin_init E w = Some (st, w')"
proof -
  from getPattern_miss_fair[OF assms new_cache_empty, of defaultMean defaultStdDev defaultOpacity w]
  obtain r c w' where
    "getPattern E NoisePatternCache_new defaultMean defaultStdDev defaultOpacity w
       = Some (r, c, w')"
    by blast
  then show ?thesis by (simp add: plugin_init_def)
qed

lemma fields_128_50_150: "noise_fields ''128,50,150'' = [''128'', ''50'', ''150'']"
  by (simp add: noise_fields_def trim_def is_white_def)

lemma fields_abc_50_150: "noise_fields ''abc,50,150'' = [''abc'', ''50'', ''150'']"
  by (simp add: noise_fields_def trim_def is_white_def)

lemma parseInt_128: "parseInt (Some ''128'') = Some 128"
  by (simp add: parseInt_def parseInt_string_def is_digit_def digit_value_def radix_value_def
      is_white_def binary64_numeral)

lemma parseInt_50: "parseInt (Some ''50'') = Some 50"
  by (simp add: parseInt_def parseInt_string_def is_digit_def digit_value_def radix_value_def
      is_white_def binary64_numeral)

lemma parseInt_150: "parseInt (Some ''150'') = Some 150"
  by (simp add: parseInt_def parseInt_string_def is_digit_def digit_value_def radix_value_def
      is_white_def binary64_numeral)

lemma parseInt_abc: "parseInt (Some ''abc'') = None"
  by (simp add: parseInt_def parseInt_string_def is_digit_def digit_value_def radix_value_def
      is_white_def)

text \<open>
  Claim C5, as amended. A request whose third field parses to an opacity below 0 or above
  100 is rejected before any pattern is asked for: with OpacityOutOfRange when the first
  two fields parse to numbers as well, with NonNumericParameter when one of them does not
  (the check of line 108 comes first). In both cases the utility returns the default
  pattern and leaves the cache, the draws and the call log as they were, so nothing was
  synthesized for the request; it only writes the warning. The default pattern is the one
  the plugin requested for \<open>(128, 50, 5)\<close> when it started.
\<close>

theorem noise_utility_opacity_out_of_range:
  assumes "parseInt (element (noise_fields v) 2) = Some opacity"
    and "opacity < 0 \<or> 100 < opacity"
  shows "parse_noise_value (Some v) =
           (if parseInt (element (noise_fields v) 0) = None \<or>
               parseInt (element (noise_fields v) 1) = None
            then Inl NonNumericParameter else Inl OpacityOutOfRange) \<and>
         (\<exists>err. parse_noise_value (Some v) = Inl err \<and>
            noise_utility E st (Some v) w =
              Some (\<lparr>background_image = defaultPattern st, background_repeat = ''repeat''\<rparr>, st,
                    w\<lparr>warnings := warnings w
                         @ [''Noise pattern error: '' @ message err
                              @ ''. Using default pattern.'']\<rparr>)) \<and>
         (\<forall>w0 st0 w1. plugin_init E w0 = Some (st0, w1) \<longrightarrow>
            (\<exists>img. draw_noise E 128 50 5 (draws w0) = Some (img, draws w1) \<and>
               defaultPattern st0 = Some (toDataURL E img) \<and>
               synth_log w1 = synth_log w0 @ [(128, 50, 5)]))"
proof -
  have c: "CHR '','' \<in> set v" using assms(1) by (rule third_field_comma)
  have p: "parse_noise_value (Some v) =
           (if parseInt (element (noise_fields v) 0) = None \<or>
               parseInt (element (noise_fields v) 1) = None
            then Inl NonNumericParameter else Inl OpacityOutOfRange)"
    unfolding parse_noise_value_fields[OF c] assms(1) using assms(2)
    by (auto split: option.splits)
  have "\<exists>err. parse_noise_value (Some v) = Inl err"
    unfolding p by (simp only: if_distrib[of "\<lambda>x. \<exists>err. x = Inl err"] sum.inject simp_thms if_cancel)
  then obtain err where e: "parse_noise_value (Some v) = Inl err" ..
  have u: "\<exists>err. parse_noise_value (Some v) = Inl err \<and>
            noise_utility E st (Some v) w =
              Some (\<lparr>background_image = defaultPattern st, background_repeat = ''repeat''\<rparr>, st,
                    w\<lparr>warnings := warnings w
                         @ [''Noise pattern error: '' @ message err
                              @ ''. Using default pattern.'']\<rparr>)"
    using e noise_utility_error[OF e, of E st w] by blast
  have i: "\<forall>w0 st0 w1. plugin_init E w0 = Some (st0, w1) \<longrightarrow>
            (\<exists>img. draw_noise E 128 50 5 (draws w0) = Some (img, draws w1) \<and>
               defaultPattern st0 = Some (toDataURL E img) \<and>
               synth_log w1 = synth_log w0 @ [(128, 50, 5)])"
    using plugin_init_SomeD by blast
  from p u i show ?thesis by (intro conjI)
qed

theorem noise_utility_opacity_out_of_range_witness:
  "parse_noise_value (Some ''128,50,150'') = Inl OpacityOutOfRange \<and>
   (\<exists>st w1 img.
      plugin_init half_engine world0 = Some (st, w1) \<and>
      defaultPattern st = Some img \<and> synth_log w1 = [(128, 50, 5)] \<and>
      noise_utility half_engine st (Some ''128,50,150'') w1 =
        Some (\<lparr>background_image = Some img, background_repeat = ''repeat''\<rparr>, st,
              w1\<lparr>warnings :=
                   [''Noise pattern error: Opacity must be between 0 and 100. Using default pattern.'']\<rparr>))"
proof -
  have f: "parseInt (element (noise_fields ''128,50,150'') 0) = Some 128"
    "parseInt (element (noise_fields ''128,50,150'') 1) = Some 50"
    "parseInt (element (noise_fields ''128,50,150'') 2) = Some 150"
    unfolding fields_128_50_150 by (simp_all add: element_def parseInt_128 parseInt_50 parseInt_150)
  have o: "(150::real) < 0 \<or> 100 < (150::real)" by simp
  from plugin_init_fair[OF fair_half_engine, of world0] obtain st w1 where
    i: "plugin_init half_engine world0 = Some (st, w1)" by blast
  note t = noise_utility_opacity_out_of_range[OF f(3) o, where E = half_engine
      and st = st and w = w1]
  have p: "parse_noise_value (Some ''128,50,150'') = Inl OpacityOutOfRange"
    using t[THEN conjunct1] unfolding f by simp
  from t[THEN conjunct2, THEN conjunct1] obtain err where
    e: "parse_noise_value (Some ''128,50,150'') = Inl err"
       "noise_utility half_engine st (Some ''128,50,150'') w1 =
              Some (\<lparr>background_image = defaultPattern st, background_repeat = ''repeat''\<rparr>, st,
                    w1\<lparr>warnings := warnings w1
                         @ [''Noise pattern error: '' @ message err
                              @ ''. Using default pattern.'']\<rparr>)"
    by blast
  from e(1) p have err: "err = OpacityOutOfRange" by simp
  from t[THEN conjunct2, THEN conjunct2, THEN spec, THEN spec, THEN spec, THEN mp, OF i]
  obtain img where
    d: "defaultPattern st = Some (toDataURL half_engine img)"
       "synth_log w1 = synth_log world0 @ [(128, 50, 5)]"
    by blast
  have w: "warnings w1 = []"
    using plugin_init_SomeD[OF i] by (auto simp: world0_def)
  show ?thesis
    using p e(2) i d w unfolding err
    by (simp add: world0_def)
qed

theorem opacity_after_non_numeric_counterexample:
  "parseInt (element (noise_fields ''abc,50,150'') 2) = Some 150 \<and>
   (100 :: real) < 150 \<and>
   parse_noise_value (Some ''abc,50,150'') = Inl NonNumericParameter \<and>
   (\<exists>st w1.
      plugin_init half_engine world0 = Some (st, w1) \<and>
      noise_utility half_engine st (Some ''abc,50,150'') w1 =
        Some (\<lparr>background_image = defaultPattern st, background_repeat = ''repeat''\<rparr>, st,
              w1\<lparr>warnings :=
                   [''Noise pattern error: Mean, Standard Deviation, and Opacity must be valid numbers. Using default pattern.'']\<rparr>))"
proof -
  have c: "CHR '','' \<in> set ''abc,50,150''" by simp
  have f: "parseInt (element (noise_fields ''abc,50,150'') 0) = None"
    "parseInt (element (noise_fields ''abc,50,150'') 1) = Some 50"
    "parseInt (element (noise_fields ''abc,50,150'') 2) = Some 150"
    unfolding fields_abc_50_150 by (simp_all add: element_def parseInt_abc parseInt_50 parseInt_150)
  have p: "parse_noise_value (Some ''abc,50,150'') = Inl NonNumericParameter"
    unfolding parse_noise_value_fields[OF c] f by simp
  from plugin_init_fair[OF fair_half_engine, of world0] obtain st w1 where
    i: "plugin_init half_engine world0 = Some (st, w1)" by blast
  have w: "warnings w1 = []"
    using plugin_init_SomeD[OF i] by (auto simp: world0_def)
  have "noise_utility half_engine st (Some ''abc,50,150'') w1 =
        Some (\<lparr>background_image = defaultPattern st, background_repeat = ''repeat''\<rparr>, st,
              w1\<lparr>warnings :=
                   [''Noise pattern error: Mean, Standard Deviation, and Opacity must be valid numbers. Using default pattern.'']\<rparr>)"
    unfolding noise_utility_error[OF p] w by simp
  with i f(3) p show ?thesis by auto
qed

subsection \<open>Parsing what a template literal prints\<close>

lemma decimal_nth: "d < 10 \<Longrightarrow> decimal (''0123456789'' ! d)"
  unfolding decimal_def by (rule nth_mem) simp

lemma digit_value_nth: "d < 10 \<Longrightarrow> digit_value (''0123456789'' ! d) = Some d"
proof -
  assume "d < 10"
  then consider "d = 0" | "d = 1" | "d = 2" | "d = 3" | "d = 4" | "d = 5" | "d = 6" | "d = 7"
    | "d = 8" | "d = 9" by atomize_elim arith
  then show ?thesis by cases (simp_all add: digit_value_def)
qed

lemma decimal_props:
  assumes "decimal c"
  shows "is_digit 10 c" and "\<not> is_white c" and "c \<noteq> CHR '',''" and "c \<noteq> CHR ''-''"
    and "c \<noteq> CHR ''+''" and "c \<noteq> CHR ''x''" and "c \<noteq> CHR ''X''"
  using assms by (auto simp: decimal_def is_digit_def digit_value_def is_white_def)

lemma digits_of_decimal: "digits_of n \<noteq> [] \<and> (\<forall>c \<in> set (digits_of n). decimal c)"
proof (induction n rule: digits_of.induct)
  case (1 n)
  show ?case
  proof (cases "n < 10")
    case True
    then show ?thesis by (subst digits_of.simps, subst digits_of.simps) (simp add: decimal_nth)
  next
    case False
    with 1 have ih: "\<forall>c \<in> set (digits_of (n div 10)). decimal c" by simp
    have "decimal (''0123456789'' ! (n mod 10))" by (rule decimal_nth) simp
    with ih False show ?thesis
      by (subst digits_of.simps, subst (2) digits_of.simps) simp
  qed
qed

lemma radix_value_snoc:
  "radix_value R (Z @ [c]) = radix_value R Z * R + (case digit_value c of None \<Rightarrow> 0 | Some d \<Rightarrow> d)"
  by (simp add: radix_value_def)

lemma radix_value_digits_of: "radix_value 10 (digits_of n) = n"
proof (induction n rule: digits_of.induct)
  case (1 n)
  show ?case
  proof (cases "n < 10")
    case True
    then show ?thesis
      by (subst digits_of.simps) (simp add: radix_value_def digit_value_nth)
  next
    case False
    with 1 have "radix_value 10 (digits_of (n div 10)) = n div 10" by simp
    with False show ?thesis
      by (subst digits_of.simps) (simp add: radix_value_snoc digit_value_nth)
  qed
qed

lemma parseInt_string_digits: "parseInt_string (digits_of n) = Some (binary64 (of_nat n))"
proof -
  define S where "S = digits_of n"
  have ne: "S \<noteq> []" and dec: "\<forall>c \<in> set S. decimal c"
    using digits_of_decimal[of n] by (simp_all add: S_def)
  from ne obtain c cs where S: "S = c # cs" by (cases S) auto
  with dec have c: "decimal c" by simp
  have w: "dropWhile is_white S = S" using decimal_props(2)[OF c] by (simp add: S)
  have hd: "hd S \<noteq> CHR ''-''" "hd S \<noteq> CHR ''+''"
    using decimal_props(4,5)[OF c] by (simp_all add: S)
  have nohex: "take 2 S \<noteq> ''0x''" "take 2 S \<noteq> ''0X''"
  proof -
    have "cs \<noteq> [] \<Longrightarrow> hd cs \<noteq> CHR ''x'' \<and> hd cs \<noteq> CHR ''X''"
      using dec decimal_props(6,7) by (cases cs) (auto simp: S)
    then show "take 2 S \<noteq> ''0x''" "take 2 S \<noteq> ''0X''"
      by (cases cs; auto simp: S)+
  qed
  have tw: "takeWhile (is_digit 10) S = S"
    using dec decimal_props(1) by (simp add: takeWhile_eq_all_conv)
  show ?thesis
    unfolding S_def[symmetric]
    using ne hd nohex
    by (simp add: parseInt_string_def w tw Let_def radix_value_digits_of[of n, folded S_def])
qed

lemma parseInt_string_minus_digits:
  "parseInt_string (CHR ''-'' # digits_of n) = Some (- binary64 (of_nat n))"
proof -
  define S where "S = digits_of n"
  have ne: "S \<noteq> []" and dec: "\<forall>c \<in> set S. decimal c"
    using digits_of_decimal[of n] by (simp_all add: S_def)
  from ne obtain c cs where S: "S = c # cs" by (cases S) auto
  with dec have c: "decimal c" by simp
  have nohex: "take 2 S \<noteq> ''0x''" "take 2 S \<noteq> ''0X''"
  proof -
    have "cs \<noteq> [] \<Longrightarrow> hd cs \<noteq> CHR ''x'' \<and> hd cs \<noteq> CHR ''X''"
      using dec decimal_props(6,7) by (cases cs) (auto simp: S)
    then show "take 2 S \<noteq> ''0x''" "take 2 S \<noteq> ''0X''"
      by (cases cs; auto simp: S)+
  qed
  have tw: "takeWhile (is_digit 10) S = S"
    using dec decimal_props(1) by (simp add: takeWhile_eq_all_conv)
  have mw: "\<not> is_white CHR ''-''" by (simp add: is_white_def)
  show ?thesis
    unfolding S_def[symmetric]
    using ne nohex
    by (simp add: parseInt_string_def mw tw Let_def radix_value_digits_of[of n, folded S_def])
qed

lemma parseInt_string_decimal_string:
  assumes "\<bar>k\<bar> \<le> 2 ^ 53"
  shows "parseInt_string (decimal_string k) = Some (of_int k)"
proof (cases "k < 0")
  case False
  with assms have "nat k \<le> 2 ^ 53" by (simp add: nat_le_iff)
  then have "binary64 (of_nat (nat k)) = of_nat (nat k)" by (rule binary64_of_nat)
  with False show ?thesis by (simp add: decimal_string_def parseInt_string_digits)
next
  case True
  with assms have "nat (- k) \<le> 2 ^ 53" by (simp add: nat_le_iff)
  then have "binary64 (of_nat (nat (- k))) = of_nat (nat (- k))" by (rule binary64_of_nat)
  with True show ?thesis by (simp add: decimal_string_def parseInt_string_minus_digits)
qed

lemma decimal_string_shape:
  shows "decimal_string k \<noteq> []"
    and "\<not> is_white (hd (decimal_string k))"
    and "\<not> is_white (last (decimal_string k))"
    and "CHR '','' \<notin> set (decimal_string k)"
proof -
  define S where "S = digits_of (nat \<bar>k\<bar>)"
  have ne: "S \<noteq> []" and dec: "\<forall>c \<in> set S. decimal c"
    using digits_of_decimal[of "nat \<bar>k\<bar>"] by (simp_all add: S_def)
  have N: "decimal_string k = (if k < 0 then CHR ''-'' # S else S)"
    by (simp add: decimal_string_def S_def abs_if)
  have mw: "\<not> is_white CHR ''-''" by (simp add: is_white_def)
  have h: "decimal (hd S)" and l: "decimal (last S)" using ne dec by simp_all
  show "decimal_string k \<noteq> []" using ne by (simp add: N)
  show "\<not> is_white (hd (decimal_string k))"
    using decimal_props(2)[OF h] mw by (simp add: N)
  show "\<not> is_white (last (decimal_string k))"
    using decimal_props(2)[OF l] ne by (simp add: N)
  show "CHR '','' \<notin> set (decimal_string k)"
    using dec decimal_props(3) by (auto simp: N)
qed

lemma trim_id:
  assumes "s \<noteq> []" and "\<not> is_white (hd s)" and "\<not> is_white (last s)"
  shows "trim s = s"
proof -
  have a: "dropWhile is_white s = s" using assms(1,2) by (cases s) simp_all
  have "rev s \<noteq> []" "\<not> is_white (hd (rev s))" using assms(1,3) by (simp_all add: hd_rev)
  then have b: "dropWhile is_white (rev s) = rev s" by (cases "rev s") simp_all
  show ?thesis by (simp add: trim_def a b)
qed

lemma trim_strips:
  "\<exists>a b. s = a @ trim s @ b \<and> list_all is_white a \<and> list_all is_white b \<and>
          (trim s = [] \<or> \<not> is_white (hd (trim s)) \<and> \<not> is_white (last (trim s)))"
proof -
  define a where "a = takeWhile is_white s"
  define t where "t = dropWhile is_white s"
  define b where "b = rev (takeWhile is_white (rev t))"
  have s: "s = a @ t" by (simp add: a_def t_def)
  have tr: "trim s = rev (dropWhile is_white (rev t))" by (simp add: trim_def t_def)
  have "rev (dropWhile is_white (rev t)) @ rev (takeWhile is_white (rev t))
          = rev (takeWhile is_white (rev t) @ dropWhile is_white (rev t))"
    by (simp only: rev_append)
  also have "\<dots> = t" by (simp only: takeWhile_dropWhile_id rev_rev_ident)
  finally have t: "t = trim s @ b" unfolding tr b_def by (rule sym)
  have wa: "list_all is_white a"
    unfolding a_def list_all_iff by (auto dest: set_takeWhileD)
  have wb: "list_all is_white b"
    unfolding b_def list_all_iff by (auto dest: set_takeWhileD)
  have ends: "\<not> is_white (hd (trim s)) \<and> \<not> is_white (last (trim s))" if ne: "trim s \<noteq> []"
  proof
    from ne have tne: "t \<noteq> []" using t by auto
    then have "\<not> is_white (hd t)" unfolding t_def by (rule hd_dropWhile)
    moreover have "hd t = hd (trim s)" using t ne by (metis hd_append2)
    ultimately show "\<not> is_white (hd (trim s))" by simp
    from ne have d: "dropWhile is_white (rev t) \<noteq> []" by (simp add: tr)
    then have "\<not> is_white (hd (dropWhile is_white (rev t)))" by (rule hd_dropWhile)
    then show "\<not> is_white (last (trim s))" using d by (simp add: tr last_rev)
  qed
  show ?thesis
    apply (rule exI[of _ a])
    apply (rule exI[of _ b])
    using s t wa wb ends by auto
qed

lemma parse_noise_value_printed:
  assumes "\<bar>mean\<bar> \<le> 2 ^ 53" and "\<bar>stdDev\<bar> \<le> 2 ^ 53" and "\<bar>opacity\<bar> \<le> 2 ^ 53"
  shows "parse_noise_value
     (Some (decimal_string mean @ '','' @ decimal_string stdDev @ '','' @ decimal_string opacity))
     = (if opacity < 0 \<or> opacity > 100 then Inl OpacityOutOfRange
        else Inr (of_int mean, of_int stdDev, of_int opacity))"
proof -
  define v where
    "v = decimal_string mean @ '','' @ decimal_string stdDev @ '','' @ decimal_string opacity"
  have c: "CHR '','' \<in> set v" by (simp add: v_def)
  have sp: "split_comma v = [decimal_string mean, decimal_string stdDev, decimal_string opacity]"
    by (simp add: v_def split_comma_append split_comma_no_comma decimal_string_shape(4))
  have tr: "noise_fields v
              = [decimal_string mean, decimal_string stdDev, decimal_string opacity]"
    by (simp add: noise_fields_def sp trim_id decimal_string_shape)
  have f: "parseInt (element (noise_fields v) 0) = Some (of_int mean)"
    "parseInt (element (noise_fields v) 1) = Some (of_int stdDev)"
    "parseInt (element (noise_fields v) 2) = Some (of_int opacity)"
    unfolding tr
    by (simp_all add: element_def parseInt_def parseInt_string_decimal_string[OF assms(1)]
        parseInt_string_decimal_string[OF assms(2)] parseInt_string_decimal_string[OF assms(3)])
  show ?thesis
    unfolding v_def[symmetric] parse_noise_value_fields[OF c] f by simp
qed

lemma parseInt_5: "parseInt (Some ''5'') = Some 5"
  by (simp add: parseInt_def parseInt_string_def is_digit_def digit_value_def radix_value_def
      is_white_def binary64_numeral)

lemma fields_128_50_5: "noise_fields ''128,50,5'' = [''128'', ''50'', ''5'']"
  by (simp add: noise_fields_def trim_def is_white_def)

lemma fields_abc_50_5: "noise_fields ''abc,50,5'' = [''abc'', ''50'', ''5'']"
  by (simp add: noise_fields_def trim_def is_white_def)

lemma fields_padded: "noise_fields '' 128 , 50 ,5 '' = [''128'', ''50'', ''5'']"
  by (simp add: noise_fields_def trim_def is_white_def)

lemma parse_128_50_5: "parse_noise_value (Some ''128,50,5'') = Inr (128, 50, 5)"
proof -
  have c: "CHR '','' \<in> set ''128,50,5''" by simp
  show ?thesis
    unfolding parse_noise_value_fields[OF c] fields_128_50_5
    by (simp add: element_def parseInt_128 parseInt_50 parseInt_5)
qed

lemma parse_abc_50_5: "parse_noise_value (Some ''abc,50,5'') = Inl NonNumericParameter"
proof -
  have c: "CHR '','' \<in> set ''abc,50,5''" by simp
  show ?thesis
    unfolding parse_noise_value_fields[OF c] fields_abc_50_5
    by (simp add: element_def parseInt_abc parseInt_50 parseInt_5)
qed

lemma parse_padded: "parse_noise_value (Some '' 128 , 50 ,5 '') = Inr (128, 50, 5)"
proof -
  have c: "CHR '','' \<in> set '' 128 , 50 ,5 ''" by simp
  show ?thesis
    unfolding parse_noise_value_fields[OF c] fields_padded
    by (simp add: element_def parseInt_128 parseInt_50 parseInt_5)
qed

lemma binary64_above_53: "binary64 9007199254740993 = 9007199254740992"
proof -
  have "binary64 9007199254740993 = of_int 4503599627370496 * pow2 (53 - 52)"
    by (rule binary64_tie) (simp_all add: pow2_def)
  then show ?thesis by (simp add: pow2_def)
qed

lemma parseInt_above_53: "parseInt (Some ''9007199254740993'') = Some 9007199254740992"
proof -
  have "parseInt (Some ''9007199254740993'') = Some (binary64 9007199254740993)"
    by (simp add: parseInt_def parseInt_string_def is_digit_def digit_value_def radix_value_def
      is_white_def)
  then show ?thesis by (simp only: binary64_above_53)
qed

lemma fields_above_53:
  "noise_fields ''9007199254740993,50,5'' = [''9007199254740993'', ''50'', ''5'']"
  by (simp add: noise_fields_def trim_def is_white_def)

lemma parse_above_53:
  "parse_noise_value (Some ''9007199254740993,50,5'') = Inr (9007199254740992, 50, 5)"
proof -
  have c: "CHR '','' \<in> set ''9007199254740993,50,5''" by simp
  show ?thesis
    unfolding parse_noise_value_fields[OF c] fields_above_53
    by (simp add: element_def parseInt_above_53 parseInt_50 parseInt_5)
qed

text \<open>
  Claim C7. The checks of the utility split the string at the commas, trim each field and
  parse it with \<open>parseInt\<close>: \<open>"128,50,5"\<close> gives mean 128, stdDev 50 and opacity 5, and
  \<open>"abc,50,5"\<close> is rejected with NonNumericParameter. With white space around the fields
  the fields are the same three strings, and so is the result: \<open>trim\<close> removes exactly the
  white space at both ends of a field. What \<open>parseInt\<close> returns is a double: the decimal
  renderings of three integers up to \<open>2^53\<close> in absolute value, joined by commas, parse
  back to these integers (when the opacity is in range), and \<open>2^53 + 1\<close> parses to \<open>2^53\<close>.
\<close>

theorem parse_noise_value_presets:
  "parse_noise_value (Some ''128,50,5'') = Inr (128, 50, 5) \<and>
   parse_noise_value (Some ''abc,50,5'') = Inl NonNumericParameter \<and>
   noise_fields '' 128 , 50 ,5 '' = [''128'', ''50'', ''5''] \<and>
   parse_noise_value (Some '' 128 , 50 ,5 '') = Inr (128, 50, 5) \<and>
   parse_noise_value (Some ''9007199254740993,50,5'') = Inr (9007199254740992, 50, 5) \<and>
   (\<forall>s. \<exists>a b. s = a @ trim s @ b \<and> list_all is_white a \<and> list_all is_white b \<and>
           (trim s = [] \<or> \<not> is_white (hd (trim s)) \<and> \<not> is_white (last (trim s)))) \<and>
   (\<forall>mean stdDev opacity.
      \<bar>mean\<bar> \<le> 2 ^ 53 \<and> \<bar>stdDev\<bar> \<le> 2 ^ 53 \<and> \<bar>opacity\<bar> \<le> 2 ^ 53 \<longrightarrow>
      parse_noise_value
        (Some (decimal_string mean @ '','' @ decimal_string stdDev @ '',''
                 @ decimal_string opacity))
      = (if opacity < 0 \<or> opacity > 100 then Inl OpacityOutOfRange
         else Inr (of_int mean, of_int stdDev, of_int opacity)))"
proof (intro conjI allI impI)
  show "parse_noise_value (Some ''128,50,5'') = Inr (128, 50, 5)" by (rule parse_128_50_5)
  show "parse_noise_value (Some ''abc,50,5'') = Inl NonNumericParameter"
    by (rule parse_abc_50_5)
  show "noise_fields '' 128 , 50 ,5 '' = [''128'', ''50'', ''5'']" by (rule fields_padded)
  show "parse_noise_value (Some '' 128 , 50 ,5 '') = Inr (128, 50, 5)" by (rule parse_padded)
  show "parse_noise_value (Some ''9007199254740993,50,5'') = Inr (9007199254740992, 50, 5)"
    by (rule parse_above_53)
next
  fix s
  show "\<exists>a b. s = a @ trim s @ b \<and> list_all is_white a \<and> list_all is_white b \<and>
           (trim s = [] \<or> \<not> is_white (hd (trim s)) \<and> \<not> is_white (last (trim s)))"
    by (rule trim_strips)
next
  fix mean stdDev opacity :: int
  assume "\<bar>mean\<bar> \<le> 2 ^ 53 \<and> \<bar>stdDev\<bar> \<le> 2 ^ 53 \<and> \<bar>opacity\<bar> \<le> 2 ^ 53"
  then have b: "\<bar>mean\<bar> \<le> 2 ^ 53" "\<bar>stdDev\<bar> \<le> 2 ^ 53" "\<bar>opacity\<bar> \<le> 2 ^ 53" by simp_all
  show "parse_noise_value
        (Some (decimal_string mean @ '','' @ decimal_string stdDev @ '',''
                 @ decimal_string opacity))
      = (if opacity < 0 \<or> opacity > 100 then Inl OpacityOutOfRange
         else Inr (of_int mean, of_int stdDev, of_int opacity))"
    by (rule parse_noise_value_printed[OF b])
qed

theorem parse_noise_value_presets_witness:
  "parse_noise_value (Some ''100,20,5'') = Inr (100, 20, 5) \<and>
   parse_noise_value (Some ''128,100,10'') = Inr (128, 100, 10) \<and>
   parse_noise_value (Some ''7,-3,101'') = Inl OpacityOutOfRange \<and>
   trim '' 50 '' = ''50''"
proof -
  note t = parse_noise_value_presets[THEN conjunct2, THEN conjunct2, THEN conjunct2,
      THEN conjunct2, THEN conjunct2, THEN conjunct2, rule_format]
  have n: "decimal_string 100 = ''100''" "decimal_string 20 = ''20''"
    "decimal_string 5 = ''5''" "decimal_string 128 = ''128''" "decimal_string 10 = ''10''"
    "decimal_string 7 = ''7''" "decimal_string (- 3) = ''-3''" "decimal_string 101 = ''101''"
    by (simp_all add: decimal_string_def digits_of.simps)
  have tr: "trim '' 50 '' = ''50''" by (simp add: trim_def is_white_def)
  show ?thesis
    using t[of 100 20 5] t[of 128 100 10] t[of 7 "- 3" 101] tr unfolding n by simp
qed

subsection \<open>The field count\<close>

lemma parseInt_1: "parseInt (Some ''1'') = Some 1"
  by (simp add: parseInt_def parseInt_string_def is_digit_def digit_value_def radix_value_def
      is_white_def binary64_numeral binary64_one)

lemma parseInt_2: "parseInt (Some ''2'') = Some 2"
  by (simp add: parseInt_def parseInt_string_def is_digit_def digit_value_def radix_value_def
      is_white_def binary64_numeral binary64_one)

lemma parseInt_3: "parseInt (Some ''3'') = Some 3"
  by (simp add: parseInt_def parseInt_string_def is_digit_def digit_value_def radix_value_def
      is_white_def binary64_numeral binary64_one)

lemma fields_1_2_3_4: "noise_fields ''1,2,3,4'' = [''1'', ''2'', ''3'', ''4'']"
  by (simp add: noise_fields_def trim_def is_white_def)

lemma fields_1_2: "noise_fields ''1,2'' = [''1'', ''2'']"
  by (simp add: noise_fields_def trim_def is_white_def)

theorem field_count_counterexample:
  "length (split_comma ''1,2,3,4'') = 4 \<and>
   parse_noise_value (Some ''1,2,3,4'') = Inr (1, 2, 3) \<and>
   length (split_comma ''1,2'') = 2 \<and>
   parse_noise_value (Some ''1,2'') = Inl NonNumericParameter"
proof -
  have c4: "CHR '','' \<in> set ''1,2,3,4''" and c2: "CHR '','' \<in> set ''1,2''" by simp_all
  have "parse_noise_value (Some ''1,2,3,4'') = Inr (1, 2, 3)"
    unfolding parse_noise_value_fields[OF c4] fields_1_2_3_4
    by (simp add: element_def parseInt_1 parseInt_2 parseInt_3)
  moreover have "parse_noise_value (Some ''1,2'') = Inl NonNumericParameter"
    unfolding parse_noise_value_fields[OF c2] fields_1_2
    by (simp add: element_def parseInt_1 parseInt_2 parseInt_undefined)
  ultimately show ?thesis by simp
qed

lemma element_take: "i < n \<Longrightarrow> element (take n xs) i = element xs i"
  by (simp add: element_def)

lemma parse_noise_value_first_three:
  assumes "CHR '','' \<in> set v" and "CHR '','' \<in> set v'"
    and "take 3 (split_comma v) = take 3 (split_comma v')"
  shows "parse_noise_value (Some v) = parse_noise_value (Some v')"
proof -
  have "element (noise_fields v) i = element (noise_fields v') i"
    if "i < 3" for i
  proof -
    have "element (noise_fields v) i = element (take 3 (noise_fields v)) i"
      using that by (simp add: element_take)
    also have "\<dots> = element (take 3 (noise_fields v')) i"
      by (simp add: noise_fields_def take_map assms(3))
    also have "\<dots> = element (noise_fields v') i"
      using that by (simp add: element_take)
    finally show ?thesis .
  qed
  from this[of 0] this[of 1] this[of 2] show ?thesis
    unfolding parse_noise_value_fields[OF assms(1)] parse_noise_value_fields[OF assms(2)]
    by simp
qed

lemma parse_noise_value_few_fields:
  assumes "CHR '','' \<in> set v" and "length (split_comma v) < 3"
  shows "parse_noise_value (Some v) = Inl NonNumericParameter"
proof -
  have "element (noise_fields v) 2 = None"
    using assms(2) by (simp add: noise_fields_def element_def)
  then show ?thesis
    unfolding parse_noise_value_fields[OF assms(1)]
    by (simp add: parseInt_undefined split: option.splits)
qed

text \<open>
  Claim C6, as amended. A parameter string that is absent, empty or has no comma is
  rejected as MalformedParameterString before anything is synthesized: the utility returns
  the default pattern, leaves the cache, the draws and the call log as they were and
  writes the warning. The number of fields is not checked: a string with a comma and fewer
  than three fields is rejected as NonNumericParameter, and the fields after the third are
  ignored.
\<close>

theorem noise_utility_malformed:
  "(val = None \<or> val = Some [] \<or> (\<exists>s. val = Some s \<and> CHR '','' \<notin> set s) \<longrightarrow>
      parse_noise_value val = Inl MalformedParameterString \<and>
      noise_utility E st val w =
        Some (\<lparr>background_image = defaultPattern st, background_repeat = ''repeat''\<rparr>, st,
              w\<lparr>warnings := warnings w
                   @ [''Noise pattern error: Invalid format. Usage: noise-[mean,dev,opacity]. Using default pattern.'']\<rparr>)) \<and>
   (CHR '','' \<in> set v \<and> length (split_comma v) < 3 \<longrightarrow>
      parse_noise_value (Some v) = Inl NonNumericParameter) \<and>
   (CHR '','' \<in> set v \<and> CHR '','' \<in> set v' \<and>
    take 3 (split_comma v) = take 3 (split_comma v') \<longrightarrow>
      parse_noise_value (Some v) = parse_noise_value (Some v'))"
proof (intro conjI impI)
  assume a: "val = None \<or> val = Some [] \<or> (\<exists>s. val = Some s \<and> CHR '','' \<notin> set s)"
  then show p: "parse_noise_value val = Inl MalformedParameterString"
    by (auto simp: parse_noise_value_def)
  show "noise_utility E st val w =
        Some (\<lparr>background_image = defaultPattern st, background_repeat = ''repeat''\<rparr>, st,
              w\<lparr>warnings := warnings w
                   @ [''Noise pattern error: Invalid format. Usage: noise-[mean,dev,opacity]. Using default pattern.'']\<rparr>)"
    using noise_utility_error[OF p, of E st w] by simp
next
  assume "CHR '','' \<in> set v \<and> length (split_comma v) < 3"
  then show "parse_noise_value (Some v) = Inl NonNumericParameter"
    using parse_noise_value_few_fields by blast
next
  assume "CHR '','' \<in> set v \<and> CHR '','' \<in> set v' \<and>
    take 3 (split_comma v) = take 3 (split_comma v')"
  then show "parse_noise_value (Some v) = parse_noise_value (Some v')"
    using parse_noise_value_first_three by blast
qed

theorem noise_utility_malformed_witness:
  "parse_noise_value None = Inl MalformedParameterString \<and>
   parse_noise_value (Some '''') = Inl MalformedParameterString \<and>
   parse_noise_value (Some ''128 50 5'') = Inl MalformedParameterString \<and>
   (\<exists>st w1.
      plugin_init half_engine world0 = Some (st, w1) \<and>
      noise_utility half_engine st (Some ''128 50 5'') w1 =
        Some (\<lparr>background_image = defaultPattern st, background_repeat = ''repeat''\<rparr>, st,
              w1\<lparr>warnings := warnings w1
                   @ [''Noise pattern error: Invalid format. Usage: noise-[mean,dev,opacity]. Using default pattern.'']\<rparr>)) \<and>
   parse_noise_value (Some ''1,2'') = Inl NonNumericParameter \<and>
   parse_noise_value (Some ''1,2,3,4'') = parse_noise_value (Some ''1,2,3'')"
proof -
  from plugin_init_fair[OF fair_half_engine, of world0] obtain st w1 where
    i: "plugin_init half_engine world0 = Some (st, w1)" by blast
  have h0: "(None :: string option) = None \<or> None = Some [] \<or>
            (\<exists>s. None = Some s \<and> CHR '','' \<notin> set s)" by simp
  have h1: "Some '''' = None \<or> Some '''' = Some [] \<or>
            (\<exists>s. Some '''' = Some s \<and> CHR '','' \<notin> set s)" by simp
  have h2: "Some ''128 50 5'' = None \<or> Some ''128 50 5'' = Some [] \<or>
            (\<exists>s. Some ''128 50 5'' = Some s \<and> CHR '','' \<notin> set s)" by simp
  have h3: "CHR '','' \<in> set ''1,2'' \<and> length (split_comma ''1,2'') < 3" by simp
  have h4: "CHR '','' \<in> set ''1,2,3,4'' \<and> CHR '','' \<in> set ''1,2,3'' \<and>
            take 3 (split_comma ''1,2,3,4'') = take 3 (split_comma ''1,2,3'')" by simp
  note a = noise_utility_malformed[where val = None, THEN conjunct1, THEN mp, OF h0,
      THEN conjunct1]
  note b = noise_utility_malformed[where val = "Some ''''", THEN conjunct1, THEN mp, OF h1,
      THEN conjunct1]
  note c = noise_utility_malformed[where val = "Some ''128 50 5''" and E = half_engine
      and st = st and w = w1, THEN conjunct1, THEN mp, OF h2]
  note d = noise_utility_malformed[where v = "''1,2''", THEN conjunct2, THEN conjunct1,
      THEN mp, OF h3]
  note e = noise_utility_malformed[where v = "''1,2,3,4''" and v' = "''1,2,3''",
      THEN conjunct2, THEN conjunct2, THEN mp, OF h4]
  from a b c d e i show ?thesis by blast
qed

subsection \<open>The two sets of defaults\<close>

text \<open>
  Claim C10. Called with no arguments, \<open>generateNoisePattern\<close> synthesizes with mean 128,
  stdDev 20 and opacity 20. The plugin's own defaults are 128, 50 and 5, a different
  triple: it is the one the plugin synthesizes when it starts, and the pattern it gets is
  what the base utility shows and what the utility falls back to after an error.
\<close>

theorem generateNoisePattern_defaults:
  "generateNoisePattern E None None None w
     = generateNoisePattern E (Some 128) (Some 20) (Some 20) w \<and>
   (\<forall>p w'. generateNoisePattern E None None None w = Some (p, w') \<longrightarrow>
      synth_log w' = synth_log w @ [(128, 20, 20)]) \<and>
   (defaultMean, defaultStdDev, defaultOpacity) = (128, 50, 5) \<and>
   (128, 20, 20) \<noteq> (defaultMean, defaultStdDev, defaultOpacity) \<and>
   (fair_source (Math_random E) \<longrightarrow> (\<exists>st w'. plugin_init E w = Some (st, w'))) \<and>
   (\<forall>st w'. plugin_init E w = Some (st, w') \<longrightarrow>
      synth_log w' = synth_log w @ [(128, 50, 5)] \<and>
      background_image (base_noise st) = defaultPattern st \<and>
      (\<exists>img. defaultPattern st = Some (toDataURL E img) \<and>
         draw_noise E 128 50 5 (draws w) = Some (img, draws w'))) \<and>
   (\<forall>val err st w. parse_noise_value val = Inl err \<longrightarrow>
      map_option (background_image \<circ> fst) (noise_utility E st val w)
        = Some (defaultPattern st))"
proof (intro conjI allI impI)
  show "generateNoisePattern E None None None w
     = generateNoisePattern E (Some 128) (Some 20) (Some 20) w"
    by (simp add: generateNoisePattern_def)
next
  fix p w'
  assume "generateNoisePattern E None None None w = Some (p, w')"
  then show "synth_log w' = synth_log w @ [(128, 20, 20)]"
    by (auto simp: generateNoisePattern_def split: Option.bind_splits)
next
  show "(defaultMean, defaultStdDev, defaultOpacity) = (128, 50, 5)"
    by (simp add: defaultMean_def defaultStdDev_def defaultOpacity_def)
next
  show "(128, 20, 20) \<noteq> (defaultMean, defaultStdDev, defaultOpacity)"
    by (simp add: defaultMean_def defaultStdDev_def defaultOpacity_def)
next
  assume "fair_source (Math_random E)"
  then show "\<exists>st w'. plugin_init E w = Some (st, w')"
    by (rule plugin_init_fair)
next
  fix st w'
  assume i: "plugin_init E w = Some (st, w')"
  from plugin_init_SomeD[OF i] show "synth_log w' = synth_log w @ [(128, 50, 5)]" by blast
  show "background_image (base_noise st) = defaultPattern st" by (simp add: base_noise_def)
  from plugin_init_SomeD[OF i]
  show "\<exists>img. defaultPattern st = Some (toDataURL E img) \<and>
         draw_noise E 128 50 5 (draws w) = Some (img, draws w')"
    by blast
next
  fix val err st and w :: world
  assume "parse_noise_value val = Inl err"
  from noise_utility_error[OF this, of E st w]
  show "map_option (background_image \<circ> fst) (noise_utility E st val w)
          = Some (defaultPattern st)"
    by simp
qed

theorem generateNoisePattern_defaults_witness:
  "\<exists>p w' st w1.
     generateNoisePattern half_engine None None None world0 = Some (p, w') \<and>
     synth_log w' = [(128, 20, 20)] \<and>
     plugin_init half_engine world0 = Some (st, w1) \<and>
     synth_log w1 = [(128, 50, 5)] \<and>
     map_option (background_image \<circ> fst) (noise_utility half_engine st None w1)
       = Some (defaultPattern st)"
proof -
  note t = generateNoisePattern_defaults[where E = half_engine and w = world0]
  from draw_noise_fair[OF fair_half_engine, of 128 20 20 "draws world0"] obtain img n' where
    "draw_noise half_engine 128 20 20 (draws world0) = Some (img, n')" by blast
  then obtain p w' where
    g: "generateNoisePattern half_engine None None None world0 = Some (p, w')"
    unfolding t[THEN conjunct1] by (simp add: generateNoisePattern_draw)
  from t[THEN conjunct2, THEN conjunct1, THEN spec, THEN spec, THEN mp, OF g]
  have l: "synth_log w' = [(128, 20, 20)]" by (simp add: world0_def)
  from t[THEN conjunct2, THEN conjunct2, THEN conjunct2, THEN conjunct2, THEN conjunct1,
      THEN mp, OF fair_half_engine]
  obtain st w1 where i: "plugin_init half_engine world0 = Some (st, w1)" by blast
  from t[THEN conjunct2, THEN conjunct2, THEN conjunct2, THEN conjunct2, THEN conjunct2,
      THEN conjunct1, THEN spec, THEN spec, THEN mp, OF i]
  have l1: "synth_log w1 = [(128, 50, 5)]" by (simp add: world0_def)
  have e: "parse_noise_value None = Inl MalformedParameterString"
    by (simp add: parse_noise_value_def)
  from t[THEN conjunct2, THEN conjunct2, THEN conjunct2, THEN conjunct2, THEN conjunct2,
      THEN conjunct2, THEN spec, THEN spec, THEN spec, THEN spec, THEN mp, OF e]
  have f: "map_option (background_image \<circ> fst) (noise_utility half_engine st None w1)
             = Some (defaultPattern st)" .
  from g l i l1 f show ?thesis by blast
qed

end
